theory Spec2Isabelle
  imports Main "HOL-Library.Sublist"
begin

section \<open>Session description rewriting (client, \<open>setAudioBitrate\<close>)\<close>

text \<open>
  JavaScript strings are modelled as \<open>string\<close>. The description text is cut at every
  occurrence of the two characters carriage return, line feed (\<open>sdp.split("\r\n")\<close>)
  and glued together again with \<open>result.join("\r\n")\<close>.
\<close>

definition CR :: char where
  "CR = CHR 0x0D"

definition LF :: char where
  "LF = CHR 0x0A"

definition CRLF :: string where
  "CRLF = [CR, LF]"

text \<open>\<open>s.split("\r\n")\<close>: always at least one piece; the empty text gives one empty piece.\<close>

fun split_crlf :: "string \<Rightarrow> string list" where
  "split_crlf [] = [[]]"
| "split_crlf [c] = [[c]]"
| "split_crlf (c # d # cs) =
     (if c = CR \<and> d = LF then [] # split_crlf cs
      else (case split_crlf (d # cs) of
              [] \<Rightarrow> [[c]]
            | l # ls \<Rightarrow> (c # l) # ls))"

text \<open>\<open>pieces.join("\r\n")\<close>.\<close>

fun join_crlf :: "string list \<Rightarrow> string" where
  "join_crlf [] = []"
| "join_crlf [l] = l"
| "join_crlf (l # m # ls) = l @ CRLF @ join_crlf (m # ls)"

text \<open>\<open>line.includes(pat)\<close>: \<open>pat\<close> occurs somewhere in \<open>line\<close>.\<close>

fun str_includes :: "string \<Rightarrow> string \<Rightarrow> bool" where
  "str_includes [] pat = (pat = [])"
| "str_includes (c # cs) pat = (prefix pat (c # cs) \<or> str_includes cs pat)"

text \<open>\<open>line.startsWith(pat)\<close>.\<close>

definition startsWith :: "string \<Rightarrow> string \<Rightarrow> bool" where
  "startsWith line pat = prefix pat line"

definition is_digit :: "char \<Rightarrow> bool" where
  "is_digit c = (c \<in> set ''0123456789'')"

text \<open>
  The regular expression \<open>/a=rtpmap:(\d+) opus/\<close> tried at the start of a text: the
  literal \<open>a=rtpmap:\<close>, then a non-empty run of decimal digits, then the literal
  \<open> opus\<close>. The run of digits is the longest one: a shorter run would be followed by a
  digit, never by the blank the pattern asks for. The result is the captured group.
\<close>

definition rtpmap_here :: "string \<Rightarrow> string option" where
  "rtpmap_here s =
     (if prefix ''a=rtpmap:'' s then
        (let rest = drop 9 s;
             ds = takeWhile is_digit rest;
             after = dropWhile is_digit rest
         in if ds \<noteq> [] \<and> prefix '' opus'' after then Some ds else None)
      else None)"

text \<open>\<open>line.match(/a=rtpmap:(\d+) opus/)\<close>: the leftmost position where the pattern fits.\<close>

fun match_rtpmap :: "string \<Rightarrow> string option" where
  "match_rtpmap [] = None"
| "match_rtpmap (c # cs) =
     (case rtpmap_here (c # cs) of
        Some pt \<Rightarrow> Some pt
      | None \<Rightarrow> match_rtpmap cs)"

text \<open>The template literal \<open>${n}\<close> of a non-negative integer: its decimal digits.\<close>

definition digit_char :: "nat \<Rightarrow> char" where
  "digit_char d = ''0123456789'' ! d"

fun show_nat :: "nat \<Rightarrow> string" where
  "show_nat n =
     (if n < 10 then [digit_char n]
      else show_nat (n div 10) @ [digit_char (n mod 10)])"

declare show_nat.simps [simp del]

text \<open>The quality presets of \<open>CONFIG.quality\<close> and the global \<open>selectedQuality\<close>.\<close>

datatype quality = low | medium | high

fun maxBitrate :: "quality \<Rightarrow> nat" where
  "maxBitrate low = 6000"
| "maxBitrate medium = 16000"
| "maxBitrate high = 32000"

fun sampleRate :: "quality \<Rightarrow> nat" where
  "sampleRate low = 8000"
| "sampleRate medium = 16000"
| "sampleRate high = 24000"

text \<open>The parameters appended to the Opus \<open>a=fmtp\<close> line.\<close>

definition fmtp_params :: "quality \<Rightarrow> nat \<Rightarrow> string" where
  "fmtp_params selectedQuality bitrate =
     '';maxaveragebitrate='' @ show_nat bitrate @
     '';maxplaybackrate='' @ show_nat (sampleRate selectedQuality) @
     '';useinbandfec=1;usedtx=1;cbr=0''"

text \<open>
  The inner loop \<open>for (let j = i + 1; j < lines.length; j++)\<close>: the first later line that
  starts with \<open>a=fmtp:<pt>\<close> ends the search; it is extended in place unless it already
  mentions \<open>maxaveragebitrate\<close>. The function returns the array \<open>lines\<close> after the loop.
\<close>

function fmtp_loop :: "string list \<Rightarrow> nat \<Rightarrow> string \<Rightarrow> string \<Rightarrow> string list" where
  "fmtp_loop lines j pt params =
     (if j < length lines then
        (if startsWith (lines ! j) (''a=fmtp:'' @ pt) then
           (if \<not> str_includes (lines ! j) ''maxaveragebitrate''
            then lines[j := lines ! j @ params]
            else lines)
         else fmtp_loop lines (j + 1) pt params)
      else lines)"
  by pat_completeness auto
termination
  by (relation "measure (\<lambda>(lines, j, pt, params). length lines - j)") auto

declare fmtp_loop.simps [simp del]

text \<open>What one pass of the outer loop does to \<open>lines\<close> at index \<open>i\<close>.\<close>

definition rewrite_fmtp :: "quality \<Rightarrow> nat \<Rightarrow> string list \<Rightarrow> nat \<Rightarrow> string list" where
  "rewrite_fmtp selectedQuality bitrate lines i =
     (if str_includes (lines ! i) ''opus/48000'' then
        (case match_rtpmap (lines ! i) of
           Some pt \<Rightarrow> fmtp_loop lines (i + 1) pt (fmtp_params selectedQuality bitrate)
         | None \<Rightarrow> lines)
      else lines)"

text \<open>
  The outer loop \<open>for (let i = 0; i < lines.length; i++)\<close> with the two arrays it works on:
  \<open>lines\<close>, which the inner loop may change behind the current index, and \<open>result\<close>.
\<close>

function setAudioBitrate_loop ::
  "quality \<Rightarrow> nat \<Rightarrow> string list \<Rightarrow> nat \<Rightarrow> string list \<Rightarrow> string list" where
  "setAudioBitrate_loop selectedQuality bitrate lines i result =
     (if i < length lines then
        (let result1 = result @ [lines ! i];
             result2 = (if startsWith (lines ! i) ''m=audio''
                        then result1 @ [''b=TIAS:'' @ show_nat bitrate]
                        else result1);
             lines' = rewrite_fmtp selectedQuality bitrate lines i
         in setAudioBitrate_loop selectedQuality bitrate lines' (i + 1) result2)
      else result)"
  by pat_completeness auto
termination
proof (relation "measure (\<lambda>(q, b, lines, i, result). length lines - i)", goal_cases)
  case 1
  show ?case by simp
next
  case (2 selectedQuality bitrate lines i result x xa)
  have "length (fmtp_loop ls j pt ps) = length ls" for ls j pt ps
    by (induction ls j pt ps rule: fmtp_loop.induct) (subst fmtp_loop.simps, simp)
  then have "length (rewrite_fmtp selectedQuality bitrate lines i) = length lines"
    by (simp add: rewrite_fmtp_def split: option.splits)
  with 2 show ?case by simp
qed

declare setAudioBitrate_loop.simps [simp del]

definition setAudioBitrate :: "quality \<Rightarrow> string \<Rightarrow> nat \<Rightarrow> string" where
  "setAudioBitrate selectedQuality sdp bitrate =
     join_crlf (setAudioBitrate_loop selectedQuality bitrate (split_crlf sdp) 0 [])"

text \<open>
  The two things the rewrite looks for: a line that starts with \<open>m=audio\<close>, and a line
  that mentions \<open>opus/48000\<close> and fits the \<open>rtpmap\<close> pattern.
\<close>

definition has_audio_mline :: "string \<Rightarrow> bool" where
  "has_audio_mline sdp = list_ex (\<lambda>l. startsWith l ''m=audio'') (split_crlf sdp)"

definition has_opus_rtpmap :: "string \<Rightarrow> bool" where
  "has_opus_rtpmap sdp =
     list_ex (\<lambda>l. str_includes l ''opus/48000'' \<and> match_rtpmap l \<noteq> None) (split_crlf sdp)"

section \<open>JavaScript objects used as dictionaries (server)\<close>

text \<open>
  The server keeps its registries in plain objects (\<open>const channels = {}\<close> and so on).
  An object is modelled by its own properties in the order \<open>for ... in\<close> and
  \<open>Object.keys\<close> enumerate them: keys that are array indices first, in ascending
  numeric order, then all other keys in the order of their creation.
\<close>

type_synonym 'v jsobj = "(string \<times> 'v) list"

definition dec_val :: "string \<Rightarrow> nat" where
  "dec_val k = foldl (\<lambda>n c. 10 * n + (of_char c - 48)) 0 k"

text \<open>An array index: the canonical decimal form of an integer below \<open>2^32 - 1\<close>.\<close>

definition is_array_index :: "string \<Rightarrow> bool" where
  "is_array_index k =
     (k \<noteq> [] \<and> list_all is_digit k \<and> (k = ''0'' \<or> hd k \<noteq> CHR ''0'')
      \<and> length k \<le> 10 \<and> dec_val k < 4294967295)"

text \<open>Whether a new key \<open>k\<close> is enumerated before the existing key \<open>k'\<close>.\<close>

definition key_before :: "string \<Rightarrow> string \<Rightarrow> bool" where
  "key_before k k' = (is_array_index k \<and> (\<not> is_array_index k' \<or> dec_val k < dec_val k'))"

fun obj_insert :: "string \<Rightarrow> 'v \<Rightarrow> 'v jsobj \<Rightarrow> 'v jsobj" where
  "obj_insert k v [] = [(k, v)]"
| "obj_insert k v ((k', v') # rest) =
     (if key_before k k' then (k, v) # (k', v') # rest
      else (k', v') # obj_insert k v rest)"

text \<open>\<open>Object.keys(obj)\<close>, also the keys a \<open>for ... in\<close> loop visits.\<close>

definition obj_keys :: "'v jsobj \<Rightarrow> string list" where
  "obj_keys obj = map fst obj"

definition obj_has_own :: "string \<Rightarrow> 'v jsobj \<Rightarrow> bool" where
  "obj_has_own k obj = (k \<in> set (obj_keys obj))"

text \<open>\<open>obj[k] = v\<close>: an existing property keeps its place, a new one is created.\<close>

definition obj_set :: "string \<Rightarrow> 'v \<Rightarrow> 'v jsobj \<Rightarrow> 'v jsobj" where
  "obj_set k v obj =
     (if obj_has_own k obj then map (\<lambda>(k', v'). if k' = k then (k', v) else (k', v')) obj
      else obj_insert k v obj)"

text \<open>\<open>delete obj[k]\<close>.\<close>

definition obj_delete :: "string \<Rightarrow> 'v jsobj \<Rightarrow> 'v jsobj" where
  "obj_delete k obj = filter (\<lambda>(k', v'). k' \<noteq> k) obj"

text \<open>
  Every object literal inherits from \<open>Object.prototype\<close>. The operator \<open>in\<close> and a
  property read see the inherited properties too; none of them is enumerable.
\<close>

definition object_prototype_names :: "string list" where
  "object_prototype_names =
     [''constructor'', ''__defineGetter__'', ''__defineSetter__'', ''hasOwnProperty'',
      ''__lookupGetter__'', ''__lookupSetter__'', ''isPrototypeOf'', ''propertyIsEnumerable'',
      ''toString'', ''valueOf'', ''__proto__'', ''toLocaleString'']"

text \<open>\<open>k in obj\<close>.\<close>

definition js_in :: "string \<Rightarrow> 'v jsobj \<Rightarrow> bool" where
  "js_in k obj = (obj_has_own k obj \<or> k \<in> set object_prototype_names)"

text \<open>
  \<open>obj[k]\<close>: the own property, else the inherited one (a built-in function, or
  \<open>Object.prototype\<close> itself for \<open>__proto__\<close>), else \<open>undefined\<close>.
\<close>

datatype 'v js_value = Own 'v | Inherited | Undefined

definition js_get :: "'v jsobj \<Rightarrow> string \<Rightarrow> 'v js_value" where
  "js_get obj k =
     (case map_of obj k of
        Some v \<Rightarrow> Own v
      | None \<Rightarrow> if k \<in> set object_prototype_names then Inherited else Undefined)"

text \<open>
  The properties \<open>for (const id in x)\<close> runs through and \<open>Object.keys(x)\<close> lists, when
  \<open>x\<close> was read from a registry of objects: the own properties of a stored object,
  nothing for an inherited built-in, nothing for \<open>undefined\<close>.
\<close>

fun enumerable :: "'v jsobj js_value \<Rightarrow> 'v jsobj" where
  "enumerable (Own obj) = obj"
| "enumerable Inherited = []"
| "enumerable Undefined = []"

section \<open>The signaling server (\<open>server.js\<close>)\<close>

text \<open>
  The three global registries, and the \<open>channels\<close> property the connection handler
  puts on every socket object. A socket object is identified by its \<open>id\<close>: the registries
  \<open>sockets\<close> and \<open>channels[c]\<close> store, under a key, the socket that an \<open>emit\<close> goes to.
\<close>

record hub =
  channels :: "string jsobj jsobj"
  sockets :: "string jsobj"
  usernames :: "string jsobj"
  socket_channels :: "string \<Rightarrow> string jsobj"

definition hub_init :: hub where
  "hub_init = \<lparr>channels = [], sockets = [], usernames = [], socket_channels = (\<lambda>sid. [])\<rparr>"

type_synonym ice_candidate = "nat \<times> string"

type_synonym session_description = "string \<times> string"

text \<open>The events the server emits, with their payloads.\<close>

datatype event =
    addPeer string string bool
  | removePeer string
  | userList "(string \<times> string) list"
  | chatMessage string string string nat
  | iceCandidate string ice_candidate
  | sessionDescription string session_description
  | peerMuteStatus string bool
  | peerSpeakingStatus string bool

text \<open>
  An emission is the socket an event is emitted on and the event. A handler that throws
  ends in \<open>Inl TypeError\<close>; otherwise it yields the new state and what it emitted, in order.
\<close>

datatype js_error = TypeError

type_synonym emission = "string \<times> event"

type_synonym outcome = "js_error + hub \<times> emission list"

text \<open>
  \<open>usernames[pid] || pid.slice(0, 6)\<close> for a socket identifier \<open>pid\<close>. Socket
  identifiers are generated by the transport library and are never names inherited from
  \<open>Object.prototype\<close>, so only own properties of \<open>usernames\<close> are read.
\<close>

definition display_name :: "string jsobj \<Rightarrow> string \<Rightarrow> string" where
  "display_name names pid =
     (case map_of names pid of
        Some u \<Rightarrow> if u \<noteq> [] then u else take 6 pid
      | None \<Rightarrow> take 6 pid)"

text \<open>\<open>io.on("connection", ...)\<close>: the body before the handlers are installed.\<close>

definition on_connection :: "string \<Rightarrow> hub \<Rightarrow> hub" where
  "on_connection sid s =
     s\<lparr>sockets := obj_set sid sid (sockets s),
       socket_channels := (socket_channels s)(sid := [])\<rparr>"

text \<open>
  \<open>socket.on("setUsername", ...)\<close>. The empty string stands for a missing name as well:
  both are falsy and give the default.
\<close>

definition on_setUsername :: "string \<Rightarrow> string \<Rightarrow> hub \<Rightarrow> outcome" where
  "on_setUsername sid username s =
     Inr (s\<lparr>usernames :=
              obj_set sid (if username \<noteq> [] then username else ''User-'' @ take 6 sid)
                (usernames s)\<rparr>, [])"

text \<open>The guard \<open>if (!channel || !channels[channel]) return;\<close> of the three broadcasts.\<close>

definition no_such_channel :: "hub \<Rightarrow> string \<Rightarrow> bool" where
  "no_such_channel s channel = (channel = [] \<or> js_get (channels s) channel = Undefined)"

text \<open>
  The chat handler reads the clock once for every member it emits to:
  \<open>now k\<close> is what \<open>Date.now()\<close> returns in pass \<open>k\<close> of the loop.
\<close>

definition on_chatMessage ::
  "string \<Rightarrow> string \<Rightarrow> string \<Rightarrow> (nat \<Rightarrow> nat) \<Rightarrow> hub \<Rightarrow> outcome" where
  "on_chatMessage sid channel message now s =
     (if no_such_channel s channel then Inr (s, [])
      else Inr (s, map (\<lambda>(k, pid, sock).
                          (sock, chatMessage sid (display_name (usernames s) sid) message (now k)))
                     (enumerate 0 (enumerable (js_get (channels s) channel)))))"

text \<open>
  \<open>socket.on("join", ...)\<close> with \<open>config.channel\<close> and \<open>config.userdata.username\<close>;
  the empty string stands for a missing value, falsy as well. The roster is read back
  after the channel was created where absent, and the name was tested not to be an
  inherited one, so the read yields an own property and the last two cases never arise
  (lemma \<open>on_join_no_throw\<close>).
\<close>

definition on_join :: "string \<Rightarrow> string \<Rightarrow> string \<Rightarrow> hub \<Rightarrow> outcome" where
  "on_join sid channel username s =
     (if channel = [] then Inr (s, [])
      else if js_in channel (socket_channels s sid) then Inr (s, [])
      else
        (let s1 = (if \<not> js_in channel (channels s)
                   then s\<lparr>channels := obj_set channel [] (channels s)\<rparr> else s);
             s2 = (if username \<noteq> []
                   then s1\<lparr>usernames := obj_set sid username (usernames s1)\<rparr> else s1)
         in case js_get (channels s2) channel of
              Own roster \<Rightarrow>
                (let out = concat (map (\<lambda>(pid, sock).
                              [(sock, addPeer sid (display_name (usernames s2) sid) False),
                               (sid, addPeer pid (display_name (usernames s2) pid) True)]) roster);
                     roster' = obj_set sid sid roster;
                     s3 = s2\<lparr>channels := obj_set channel roster' (channels s2),
                             socket_channels := (socket_channels s2)
                               (sid := obj_set channel channel (socket_channels s2 sid))\<rparr>;
                     users = map (\<lambda>(pid, sock). (pid, display_name (usernames s3) pid)) roster'
                 in Inr (s3, out @ [(sid, userList users)]))
            | Inherited \<Rightarrow> Inl TypeError
            | Undefined \<Rightarrow> Inl TypeError))"

text \<open>
  \<open>function part(channel)\<close>, called by the disconnect handler and installed as the
  handler of \<open>part\<close>. With no entry for the channel in \<open>channels\<close>,
  \<open>delete channels[channel][socket.id]\<close> throws. A name inherited from
  \<open>Object.prototype\<close> passes the membership test; the deletions and the loop then work
  on a built-in without enumerable properties and change nothing.
\<close>

definition part :: "string \<Rightarrow> string \<Rightarrow> hub \<Rightarrow> outcome" where
  "part sid channel s =
     (if \<not> js_in channel (socket_channels s sid) then Inr (s, [])
      else
        (let s1 = s\<lparr>socket_channels := (socket_channels s)
                        (sid := obj_delete channel (socket_channels s sid))\<rparr>
         in case js_get (channels s1) channel of
              Undefined \<Rightarrow> Inl TypeError
            | Inherited \<Rightarrow> Inr (s1, [])
            | Own roster \<Rightarrow>
                (let roster' = obj_delete sid roster;
                     s2 = s1\<lparr>channels := obj_set channel roster' (channels s1)\<rparr>;
                     out = concat (map (\<lambda>(pid, sock).
                              [(sock, removePeer sid), (sid, removePeer pid)]) roster');
                     s3 = (if length (obj_keys roster') = 0
                           then s2\<lparr>channels := obj_delete channel (channels s2)\<rparr> else s2)
                 in Inr (s3, out))))"

text \<open>
  The loop \<open>for (const channel in socket.channels) part(channel)\<close> of the disconnect
  handler. The keys are those the object has when the loop starts; a key deleted before
  its turn is skipped.
\<close>

fun disconnect_loop :: "string \<Rightarrow> string list \<Rightarrow> hub \<Rightarrow> emission list \<Rightarrow> outcome" where
  "disconnect_loop sid [] s out = Inr (s, out)"
| "disconnect_loop sid (channel # rest) s out =
     (if \<not> obj_has_own channel (socket_channels s sid) then disconnect_loop sid rest s out
      else (case part sid channel s of
              Inl e \<Rightarrow> Inl e
            | Inr (s', out') \<Rightarrow> disconnect_loop sid rest s' (out @ out')))"

definition on_disconnect :: "string \<Rightarrow> hub \<Rightarrow> outcome" where
  "on_disconnect sid s =
     (case disconnect_loop sid (obj_keys (socket_channels s sid)) s [] of
        Inl e \<Rightarrow> Inl e
      | Inr (s', out) \<Rightarrow>
          Inr (s'\<lparr>sockets := obj_delete sid (sockets s'),
                  usernames := obj_delete sid (usernames s')\<rparr>, out))"

text \<open>
  The two relays. \<open>sockets[peer_id].emit\<close> is a method call: on an inherited built-in it
  throws, since a built-in function and \<open>Object.prototype\<close> have no \<open>emit\<close>.
\<close>

definition on_relayICECandidate :: "string \<Rightarrow> string \<Rightarrow> ice_candidate \<Rightarrow> hub \<Rightarrow> outcome" where
  "on_relayICECandidate sid peer_id ice s =
     (if js_in peer_id (sockets s) then
        (case js_get (sockets s) peer_id of
           Own sock \<Rightarrow> Inr (s, [(sock, iceCandidate sid ice)])
         | Inherited \<Rightarrow> Inl TypeError
         | Undefined \<Rightarrow> Inl TypeError)
      else Inr (s, []))"

definition on_relaySessionDescription ::
  "string \<Rightarrow> string \<Rightarrow> session_description \<Rightarrow> hub \<Rightarrow> outcome" where
  "on_relaySessionDescription sid peer_id sd s =
     (if js_in peer_id (sockets s) then
        (case js_get (sockets s) peer_id of
           Own sock \<Rightarrow> Inr (s, [(sock, sessionDescription sid sd)])
         | Inherited \<Rightarrow> Inl TypeError
         | Undefined \<Rightarrow> Inl TypeError)
      else Inr (s, []))"

text \<open>
  The two status broadcasts skip the sender: \<open>if (id !== socket.id)\<close>.
\<close>

definition on_muteStatus :: "string \<Rightarrow> string \<Rightarrow> bool \<Rightarrow> hub \<Rightarrow> outcome" where
  "on_muteStatus sid channel isMuted s =
     (if no_such_channel s channel then Inr (s, [])
      else Inr (s, map (\<lambda>(pid, sock). (sock, peerMuteStatus sid isMuted))
                     (filter (\<lambda>(pid, sock). pid \<noteq> sid)
                        (enumerable (js_get (channels s) channel)))))"

definition on_speakingStatus :: "string \<Rightarrow> string \<Rightarrow> bool \<Rightarrow> hub \<Rightarrow> outcome" where
  "on_speakingStatus sid channel isSpeaking s =
     (if no_such_channel s channel then Inr (s, [])
      else Inr (s, map (\<lambda>(pid, sock). (sock, peerSpeakingStatus sid isSpeaking))
                     (filter (\<lambda>(pid, sock). pid \<noteq> sid)
                        (enumerable (js_get (channels s) channel)))))"

subsection \<open>Runs of the server\<close>

text \<open>
  What a connected client can send: one constructor for each \<open>socket.on\<close>, with the
  fields of its \<open>config\<close> argument; \<open>ChatMessage\<close> also carries the values
  \<open>Date.now()\<close> returns while it is handled.
\<close>

datatype message =
    Disconnect
  | SetUsername string
  | ChatMessage string string "nat \<Rightarrow> nat"
  | Join string string
  | Part string
  | RelayICECandidate string ice_candidate
  | RelaySessionDescription string session_description
  | MuteStatus string bool
  | SpeakingStatus string bool

fun handle :: "string \<Rightarrow> message \<Rightarrow> hub \<Rightarrow> outcome" where
  "handle sid Disconnect s = on_disconnect sid s"
| "handle sid (SetUsername username) s = on_setUsername sid username s"
| "handle sid (ChatMessage channel text now) s = on_chatMessage sid channel text now s"
| "handle sid (Join channel username) s = on_join sid channel username s"
| "handle sid (Part channel) s = part sid channel s"
| "handle sid (RelayICECandidate peer_id ice) s = on_relayICECandidate sid peer_id ice s"
| "handle sid (RelaySessionDescription peer_id sd) s = on_relaySessionDescription sid peer_id sd s"
| "handle sid (MuteStatus channel isMuted) s = on_muteStatus sid channel isMuted s"
| "handle sid (SpeakingStatus channel isSpeaking) s = on_speakingStatus sid channel isSpeaking s"

text \<open>
  The states the server can be in: it starts with empty registries; a connection arrives
  with an identifier no connected socket has, which is not a name inherited from
  \<open>Object.prototype\<close>; a connected socket delivers a message and its handler returns.
\<close>

inductive reachable :: "hub \<Rightarrow> bool" where
  init: "reachable hub_init"
| connect: "reachable s \<Longrightarrow> \<not> obj_has_own sid (sockets s)
            \<Longrightarrow> sid \<notin> set object_prototype_names \<Longrightarrow> reachable (on_connection sid s)"
| deliver: "reachable s \<Longrightarrow> obj_has_own sid (sockets s)
            \<Longrightarrow> handle sid m s = Inr (s', out) \<Longrightarrow> reachable s'"

text \<open>
  The specification's reading of \<open>disconnect\<close>: a leave for every channel the connection
  belongs to, one after the other, then the purge of its entries in \<open>sockets\<close> and
  \<open>usernames\<close>.
\<close>

fun leave_all :: "string \<Rightarrow> string list \<Rightarrow> hub \<Rightarrow> outcome" where
  "leave_all sid [] s = Inr (s, [])"
| "leave_all sid (channel # rest) s =
     (case part sid channel s of
        Inl e \<Rightarrow> Inl e
      | Inr (s', out) \<Rightarrow>
          (case leave_all sid rest s' of
             Inl e \<Rightarrow> Inl e
           | Inr (s'', out') \<Rightarrow> Inr (s'', out @ out')))"

definition purge_identity :: "string \<Rightarrow> hub \<Rightarrow> hub" where
  "purge_identity sid s =
     s\<lparr>sockets := obj_delete sid (sockets s), usernames := obj_delete sid (usernames s)\<rparr>"

definition disconnect_spec :: "string \<Rightarrow> hub \<Rightarrow> outcome" where
  "disconnect_spec sid s =
     (case leave_all sid (obj_keys (socket_channels s sid)) s of
        Inl e \<Rightarrow> Inl e
      | Inr (s', out) \<Rightarrow> Inr (purge_identity sid s', out))"

text \<open>Reading an outcome: whether the handler threw, the state it left, what it emitted.\<close>

definition threw :: "outcome \<Rightarrow> bool" where
  "threw r = (case r of Inl e \<Rightarrow> True | Inr (s, out) \<Rightarrow> False)"

definition state_of :: "outcome \<Rightarrow> hub" where
  "state_of r = (case r of Inl e \<Rightarrow> hub_init | Inr (s, out) \<Rightarrow> s)"

definition emitted :: "outcome \<Rightarrow> emission list" where
  "emitted r = (case r of Inl e \<Rightarrow> [] | Inr (s, out) \<Rightarrow> out)"

text \<open>The events emitted on one socket, in order.\<close>

definition received :: "emission list \<Rightarrow> string \<Rightarrow> event list" where
  "received out sid = map snd (filter (\<lambda>(sock, ev). sock = sid) out)"

text \<open>The members of a channel, in the order the server's loops visit them.\<close>

definition members :: "hub \<Rightarrow> string \<Rightarrow> string list" where
  "members s channel = obj_keys (enumerable (js_get (channels s) channel))"

text \<open>No channel of the registry has an empty roster.\<close>

definition no_empty_channel :: "hub \<Rightarrow> bool" where
  "no_empty_channel s = list_all (\<lambda>(channel, roster). roster \<noteq> []) (channels s)"

section \<open>The invariant of the server state\<close>

text \<open>
  What every state of a run satisfies: object keys are unique; a registered channel has a
  member, a name that is neither empty nor inherited from \<open>Object.prototype\<close>, and
  stores each member socket under its own identifier, a connected one; and a socket lists
  a channel in its \<open>channels\<close> property exactly when the roster of that channel lists the
  socket.
\<close>

definition hub_inv :: "hub \<Rightarrow> bool" where
  "hub_inv s \<longleftrightarrow>
     distinct (obj_keys (channels s)) \<and>
     (\<forall>channel roster. map_of (channels s) channel = Some roster \<longrightarrow>
        roster \<noteq> [] \<and> distinct (obj_keys roster) \<and> channel \<noteq> [] \<and>
        channel \<notin> set object_prototype_names \<and>
        (\<forall>pid sock. map_of roster pid = Some sock \<longrightarrow> sock = pid \<and> obj_has_own pid (sockets s))) \<and>
     (\<forall>sid. distinct (obj_keys (socket_channels s sid)) \<and>
        (\<forall>channel. obj_has_own channel (socket_channels s sid) \<longleftrightarrow>
           (\<exists>roster. map_of (channels s) channel = Some roster \<and> obj_has_own sid roster)))"

section \<open>Two small runs\<close>

text \<open>
  Two sockets \<open>A\<close> and \<open>B\<close> connect and \<open>A\<close> joins \<open>room1\<close> under the name
  \<open>alice\<close>; then \<open>B\<close> joins \<open>room1\<close> without a name.
\<close>

definition hub_A :: hub where
  "hub_A = state_of (on_join ''A'' ''room1'' ''alice''
                      (on_connection ''B'' (on_connection ''A'' hub_init)))"

definition hub_AB :: hub where
  "hub_AB = state_of (on_join ''B'' ''room1'' [] hub_A)"

section \<open>The client's roster of peer connections (\<open>handleAddPeer\<close>)\<close>

text \<open>
  The client keeps one \<open>RTCPeerConnection\<close> per remote identifier in the object
  \<open>peers\<close>. Of a connection the model keeps what \<open>handleAddPeer\<close> does to it: which
  object it is (objects are numbered as they are created), the tracks added to it and
  its local description.
\<close>

record peer_connection =
  pc_object :: nat
  pc_tracks :: "string list"
  pc_localDescription :: "session_description option"

text \<open>
  The client state \<open>handleAddPeer\<close> reads and writes: \<open>peers\<close>, the tracks of
  \<open>localStream\<close> (\<open>None\<close> while it is \<open>null\<close>), \<open>selectedQuality\<close>, the peers list of
  the page (its placeholder and its \<open>peer-<id>\<close> items with the name they show), the
  \<open>relaySessionDescription\<close> messages emitted on the signaling socket, and the number of
  connection objects created so far.
\<close>

record client =
  peers :: "peer_connection jsobj"
  localStream :: "string list option"
  selectedQuality :: quality
  peers_placeholder :: bool
  peer_items :: "(string \<times> string) list"
  relayed :: "(string \<times> session_description) list"
  created :: nat

text \<open>The payload of an \<open>addPeer\<close> event.\<close>

record addPeer_config =
  cfg_peer_id :: string
  cfg_username :: string
  cfg_should_create_offer :: bool

text \<open>
  What the media engine answers while one \<open>addPeer\<close> event is handled: the description
  text \<open>createOffer\<close> resolves with (\<open>None\<close> when it rejects), and whether
  \<open>setLocalDescription\<close> resolves.
\<close>

record engine =
  createOffer :: "string option"
  setLocalDescription :: bool

text \<open>\<open>addPeerToUI(peerId, username)\<close>.\<close>

definition addPeerToUI :: "string \<Rightarrow> string \<Rightarrow> client \<Rightarrow> client" where
  "addPeerToUI peerId username c =
     (let c1 = c\<lparr>peers_placeholder := False\<rparr>
      in if peerId \<in> set (map fst (peer_items c1)) then c1
         else c1\<lparr>peer_items := peer_items c1 @ [(peerId, username)]\<rparr>)"

text \<open>
  \<open>handleAddPeer(config)\<close>. The test \<open>if (peers[peerId])\<close> is true for a stored
  connection (an object), and also for a name inherited from \<open>Object.prototype\<close>. Past
  the test the connection object is created and stored, the local tracks are added to it,
  the peer is shown, and with \<open>should_create_offer\<close> the offer is created, rewritten by
  \<open>setAudioBitrate\<close>, set as local description and relayed; a rejection by the engine is
  caught and logged, and ends the handler. The awaited answers of the engine are taken as
  given before the next event is handled.
\<close>

definition handleAddPeer :: "addPeer_config \<Rightarrow> engine \<Rightarrow> client \<Rightarrow> client" where
  "handleAddPeer config eng c =
     (let peerId = cfg_peer_id config;
          peerUsername = (if cfg_username config \<noteq> [] then cfg_username config
                          else take 6 peerId)
      in if js_get (peers c) peerId \<noteq> Undefined then c
         else
           (let peerConnection = \<lparr>pc_object = created c, pc_tracks = [],
                                   pc_localDescription = None\<rparr>;
                c1 = c\<lparr>created := created c + 1,
                       peers := obj_set peerId peerConnection (peers c)\<rparr>;
                peerConnection2 = (case localStream c1 of
                                     Some tracks \<Rightarrow> peerConnection\<lparr>pc_tracks := tracks\<rparr>
                                   | None \<Rightarrow> peerConnection);
                c2 = c1\<lparr>peers := obj_set peerId peerConnection2 (peers c1)\<rparr>;
                c3 = addPeerToUI peerId peerUsername c2
            in if cfg_should_create_offer config then
                 (case createOffer eng of
                    None \<Rightarrow> c3
                  | Some sdp \<Rightarrow>
                      (let modifiedOffer =
                             (''offer'', setAudioBitrate (selectedQuality c3) sdp
                                           (maxBitrate (selectedQuality c3)))
                       in if setLocalDescription eng then
                            (let peerConnection3 =
                                   peerConnection2\<lparr>pc_localDescription := Some modifiedOffer\<rparr>
                             in c3\<lparr>peers := obj_set peerId peerConnection3 (peers c3),
                                   relayed := relayed c3 @ [(peerId, modifiedOffer)]\<rparr>)
                          else c3))
               else c3))"

text \<open>A client with a local audio track and no peers, and one \<open>addPeer\<close> event.\<close>

definition client_init :: client where
  "client_init = \<lparr>peers = [], localStream = Some [''audio''], selectedQuality = medium,
     peers_placeholder = True, peer_items = [], relayed = [], created = 0\<rparr>"

definition addPeer_A :: addPeer_config where
  "addPeer_A = \<lparr>cfg_peer_id = ''A'', cfg_username = ''alice'', cfg_should_create_offer = True\<rparr>"

definition engine_ok :: engine where
  "engine_ok = \<lparr>createOffer = Some ''m=audio 9 RTP/AVP 0'', setLocalDescription = True\<rparr>"

definition engine_rejecting :: engine where
  "engine_rejecting = \<lparr>createOffer = None, setLocalDescription = False\<rparr>"

section \<open>Properties of the session description rewriting\<close>

lemma length_fmtp_loop [simp]: "length (fmtp_loop lines j pt params) = length lines"
proof (induction lines j pt params rule: fmtp_loop.induct)
  case (1 lines j pt params)
  then show ?case
    by (subst fmtp_loop.simps) simp
qed

lemma length_rewrite_fmtp [simp]:
  "length (rewrite_fmtp q bitrate lines i) = length lines"
  by (simp add: rewrite_fmtp_def split: option.splits)

text \<open>The equations that evaluate the rewrite on a concrete text.\<close>

lemmas codec_eval = setAudioBitrate_def setAudioBitrate_loop.simps rewrite_fmtp_def
  fmtp_loop.simps fmtp_params_def show_nat.simps digit_char_def startsWith_def rtpmap_here_def
  is_digit_def CRLF_def CR_def LF_def has_audio_mline_def has_opus_rtpmap_def Let_def

subsection \<open>Splitting and joining\<close>

lemma split_crlf_nonempty: "split_crlf s \<noteq> []"
  by (induction s rule: split_crlf.induct) (auto split: list.splits)

lemma join_crlf_Cons: "join_crlf ((c # l) # ls) = c # join_crlf (l # ls)"
  by (cases ls) auto

lemma join_split_crlf: "join_crlf (split_crlf s) = s"
proof (induction s rule: split_crlf.induct)
  case (3 c d cs)
  show ?case
  proof (cases "c = CR \<and> d = LF")
    case True
    with 3 show ?thesis
      by (cases "split_crlf cs") (auto simp: CRLF_def split_crlf_nonempty)
  next
    case False
    obtain l ls where sp: "split_crlf (d # cs) = l # ls"
      using split_crlf_nonempty [of "d # cs"] by (cases "split_crlf (d # cs)") auto
    have "split_crlf (c # d # cs) = (c # l) # ls"
      using False sp by simp
    then have "join_crlf (split_crlf (c # d # cs)) = c # join_crlf (l # ls)"
      by (simp only: join_crlf_Cons)
    also have "\<dots> = c # d # cs"
      using 3(2) [OF False] sp by simp
    finally show ?thesis .
  qed
qed simp_all

subsection \<open>A text with nothing to rewrite\<close>

lemma setAudioBitrate_loop_unchanged:
  assumes "\<forall>l \<in> set lines. \<not> startsWith l ''m=audio''"
    and "\<forall>l \<in> set lines. \<not> (str_includes l ''opus/48000'' \<and> match_rtpmap l \<noteq> None)"
  shows "setAudioBitrate_loop q b lines i result = result @ drop i lines"
  using assms
proof (induction q b lines i result rule: setAudioBitrate_loop.induct)
  case (1 q b lines i result)
  show ?case
  proof (cases "i < length lines")
    case False
    then show ?thesis by (subst setAudioBitrate_loop.simps) simp
  next
    case True
    then have mem: "lines ! i \<in> set lines" by simp
    have rw: "rewrite_fmtp q b lines i = lines"
      using mem 1(3) by (auto simp: rewrite_fmtp_def split: option.splits)
    have na: "\<not> startsWith (lines ! i) ''m=audio''"
      using mem 1(2) by blast
    have "setAudioBitrate_loop q b lines i result
        = setAudioBitrate_loop q b lines (i + 1) (result @ [lines ! i])"
      using True rw na by (subst setAudioBitrate_loop.simps) (simp add: Let_def)
    also have "\<dots> = (result @ [lines ! i]) @ drop (i + 1) lines"
      using 1(1) [OF True refl refl refl] rw na 1(2,3) by simp
    also have "\<dots> = result @ drop i lines"
      using True by (simp add: Cons_nth_drop_Suc)
    finally show ?thesis .
  qed
qed

text \<open>
  Claim C3, as the code has it: a description text with no line starting with
  \<open>m=audio\<close> and no matching Opus \<open>rtpmap\<close> line (both absent) comes back from
  \<open>setAudioBitrate\<close> unchanged, character for character.
\<close>

theorem setAudioBitrate_unchanged:
  assumes "\<not> has_audio_mline sdp" and "\<not> has_opus_rtpmap sdp"
  shows "setAudioBitrate q sdp bitrate = sdp"
proof -
  have "setAudioBitrate_loop q bitrate (split_crlf sdp) 0 [] = split_crlf sdp"
    using assms setAudioBitrate_loop_unchanged [of "split_crlf sdp" q bitrate 0 "[]"]
    by (simp add: has_audio_mline_def has_opus_rtpmap_def list_ex_iff)
  then show ?thesis
    by (simp add: setAudioBitrate_def join_split_crlf)
qed

theorem setAudioBitrate_unchanged_witness:
  "\<not> has_audio_mline (''v=0'' @ CRLF @ ''m=video 9 RTP/AVP 96'' @ CRLF @ ''a=rtpmap:96 VP8/90000'')
   \<and> \<not> has_opus_rtpmap (''v=0'' @ CRLF @ ''m=video 9 RTP/AVP 96'' @ CRLF @ ''a=rtpmap:96 VP8/90000'')
   \<and> setAudioBitrate medium
        (''v=0'' @ CRLF @ ''m=video 9 RTP/AVP 96'' @ CRLF @ ''a=rtpmap:96 VP8/90000'') 16000
      = ''v=0'' @ CRLF @ ''m=video 9 RTP/AVP 96'' @ CRLF @ ''a=rtpmap:96 VP8/90000''"
proof -
  let ?sdp = "''v=0'' @ CRLF @ ''m=video 9 RTP/AVP 96'' @ CRLF @ ''a=rtpmap:96 VP8/90000''"
  have a: "\<not> has_audio_mline ?sdp" by (simp add: codec_eval)
  have b: "\<not> has_opus_rtpmap ?sdp" by (simp add: codec_eval)
  from a b setAudioBitrate_unchanged [OF a b, of medium 16000] show ?thesis
    by (intro conjI)
qed

text \<open>
  Claim C3 as stated asks for one of the two to be absent. With an audio media-line and no
  Opus codec the bandwidth line is still inserted; with an Opus codec and no audio
  media-line the \<open>a=fmtp\<close> line is still extended.
\<close>

theorem setAudioBitrate_unchanged_counterexample:
  "\<not> has_opus_rtpmap ''m=audio 9 RTP/AVP 0''
   \<and> setAudioBitrate medium ''m=audio 9 RTP/AVP 0'' 16000
      = ''m=audio 9 RTP/AVP 0'' @ CRLF @ ''b=TIAS:16000''
   \<and> setAudioBitrate medium ''m=audio 9 RTP/AVP 0'' 16000 \<noteq> ''m=audio 9 RTP/AVP 0''
   \<and> \<not> has_audio_mline (''a=rtpmap:111 opus/48000/2'' @ CRLF @ ''a=fmtp:111 minptime=10'')
   \<and> setAudioBitrate medium
        (''a=rtpmap:111 opus/48000/2'' @ CRLF @ ''a=fmtp:111 minptime=10'') 16000
      \<noteq> ''a=rtpmap:111 opus/48000/2'' @ CRLF @ ''a=fmtp:111 minptime=10''"
  by (simp add: codec_eval)

text \<open>
  Claim C2 at a concrete description: the first application inserts one bandwidth line
  after the audio media-line and extends the \<open>a=fmtp\<close> line; the second application
  leaves the \<open>a=fmtp\<close> line alone (it already mentions \<open>maxaveragebitrate\<close>) and
  inserts a second bandwidth line, so the two results differ.
\<close>

theorem setAudioBitrate_twice:
  "setAudioBitrate medium
     (''m=audio 9 RTP/AVP 111'' @ CRLF @ ''a=rtpmap:111 opus/48000/2'' @ CRLF @
      ''a=fmtp:111 minptime=10'') 16000
   = ''m=audio 9 RTP/AVP 111'' @ CRLF @ ''b=TIAS:16000'' @ CRLF @
     ''a=rtpmap:111 opus/48000/2'' @ CRLF @
     ''a=fmtp:111 minptime=10;maxaveragebitrate=16000;maxplaybackrate=16000;useinbandfec=1;usedtx=1;cbr=0''
   \<and> setAudioBitrate medium
       (setAudioBitrate medium
          (''m=audio 9 RTP/AVP 111'' @ CRLF @ ''a=rtpmap:111 opus/48000/2'' @ CRLF @
           ''a=fmtp:111 minptime=10'') 16000) 16000
     = ''m=audio 9 RTP/AVP 111'' @ CRLF @ ''b=TIAS:16000'' @ CRLF @ ''b=TIAS:16000'' @ CRLF @
       ''a=rtpmap:111 opus/48000/2'' @ CRLF @
       ''a=fmtp:111 minptime=10;maxaveragebitrate=16000;maxplaybackrate=16000;useinbandfec=1;usedtx=1;cbr=0''"
  by (simp add: codec_eval)

section \<open>Properties of the dictionary operations\<close>

lemma obj_keys_Nil [simp]: "obj_keys [] = []"
  by (simp add: obj_keys_def)

lemma obj_keys_empty_iff [simp]: "obj_keys obj = [] \<longleftrightarrow> obj = []"
  by (simp add: obj_keys_def)

lemma obj_has_own_map_of: "obj_has_own k obj \<longleftrightarrow> map_of obj k \<noteq> None"
  by (simp add: obj_has_own_def obj_keys_def map_of_eq_None_iff)

lemma keys_obj_insert: "set (obj_keys (obj_insert k v obj)) = insert k (set (obj_keys obj))"
  unfolding obj_keys_def
proof (induction obj)
  case Nil
  show ?case by simp
next
  case (Cons p obj)
  obtain k' v' where p: "p = (k', v')" by (cases p)
  show ?case
    using Cons unfolding p by (cases "key_before k k'") auto
qed

lemma map_of_obj_insert:
  "k \<notin> set (obj_keys obj) \<Longrightarrow> map_of (obj_insert k v obj) = (map_of obj)(k \<mapsto> v)"
  unfolding obj_keys_def by (induction obj) (auto simp: fun_eq_iff)

lemma distinct_obj_insert:
  "k \<notin> set (obj_keys obj) \<Longrightarrow> distinct (obj_keys obj) \<Longrightarrow> distinct (obj_keys (obj_insert k v obj))"
proof (induction obj)
  case Nil
  show ?case by (simp add: obj_keys_def)
next
  case (Cons p obj)
  obtain k' v' where p: "p = (k', v')" by (cases p)
  have ih: "distinct (obj_keys (obj_insert k v obj))"
    using Cons by (simp add: obj_keys_def)
  have "k' \<notin> set (obj_keys (obj_insert k v obj))"
    using Cons.prems unfolding keys_obj_insert p by (auto simp: obj_keys_def)
  then show ?case
    using Cons.prems ih unfolding p by (auto simp: obj_keys_def)
qed

lemma obj_keys_replace:
  "obj_keys (map (\<lambda>(k', v'). if k' = k then (k', v) else (k', v')) obj) = obj_keys obj"
  unfolding obj_keys_def by (induction obj) auto

lemma map_of_replace_other:
  "x \<noteq> k \<Longrightarrow>
   map_of (map (\<lambda>(k', v'). if k' = k then (k', v) else (k', v')) obj) x = map_of obj x"
  by (induction obj) auto

lemma map_of_replace_same:
  "k \<in> set (obj_keys obj) \<Longrightarrow>
   map_of (map (\<lambda>(k', v'). if k' = k then (k', v) else (k', v')) obj) k = Some v"
  unfolding obj_keys_def by (induction obj) auto

lemma map_of_replace:
  "k \<in> set (obj_keys obj) \<Longrightarrow>
   map_of (map (\<lambda>(k', v'). if k' = k then (k', v) else (k', v')) obj) = (map_of obj)(k \<mapsto> v)"
  by (rule ext) (simp add: map_of_replace_other map_of_replace_same)

lemma map_of_obj_set [simp]: "map_of (obj_set k v obj) = (map_of obj)(k \<mapsto> v)"
  by (simp add: obj_set_def obj_has_own_def map_of_replace map_of_obj_insert)

lemma keys_obj_set [simp]: "set (obj_keys (obj_set k v obj)) = insert k (set (obj_keys obj))"
  by (auto simp: obj_set_def obj_has_own_def obj_keys_replace keys_obj_insert)

lemma distinct_obj_set [simp]:
  "distinct (obj_keys obj) \<Longrightarrow> distinct (obj_keys (obj_set k v obj))"
  by (simp add: obj_set_def obj_has_own_def obj_keys_replace distinct_obj_insert)

lemma obj_set_nonempty [simp]: "obj_set k v obj \<noteq> []"
proof -
  have "set (obj_keys (obj_set k v obj)) \<noteq> {}" by simp
  then show ?thesis by (auto simp: obj_keys_def)
qed

lemma map_of_obj_delete [simp]: "map_of (obj_delete k obj) = (map_of obj)(k := None)"
  by (induction obj) (auto simp: obj_delete_def fun_eq_iff)

lemma obj_keys_obj_delete: "obj_keys (obj_delete k obj) = filter (\<lambda>k'. k' \<noteq> k) (obj_keys obj)"
  unfolding obj_keys_def by (induction obj) (auto simp: obj_delete_def)

lemma keys_obj_delete [simp]: "set (obj_keys (obj_delete k obj)) = set (obj_keys obj) - {k}"
  by (auto simp: obj_keys_obj_delete)

lemma distinct_obj_delete [simp]:
  "distinct (obj_keys obj) \<Longrightarrow> distinct (obj_keys (obj_delete k obj))"
  by (simp add: obj_keys_obj_delete)

lemma obj_delete_absent: "\<not> obj_has_own k obj \<Longrightarrow> obj_delete k obj = obj"
  unfolding obj_has_own_def obj_keys_def obj_delete_def by (induction obj) auto

lemma obj_has_own_obj_set [simp]: "obj_has_own k' (obj_set k v obj) \<longleftrightarrow> k' = k \<or> obj_has_own k' obj"
  by (auto simp: obj_has_own_def)

lemma obj_has_own_obj_delete [simp]: "obj_has_own k' (obj_delete k obj) \<longleftrightarrow> k' \<noteq> k \<and> obj_has_own k' obj"
  by (auto simp: obj_has_own_def)

lemma obj_has_own_Nil [simp]: "\<not> obj_has_own k []"
  by (simp add: obj_has_own_def)

lemma js_get_Some [simp]: "map_of obj k = Some v \<Longrightarrow> js_get obj k = Own v"
  by (simp add: js_get_def)

lemma js_get_None:
  "map_of obj k = None \<Longrightarrow>
   js_get obj k = (if k \<in> set object_prototype_names then Inherited else Undefined)"
  by (simp add: js_get_def)

lemma js_get_Own_iff [simp]: "js_get obj k = Own v \<longleftrightarrow> map_of obj k = Some v"
  by (auto simp: js_get_def split: option.splits)

section \<open>The invariant holds in every reachable state\<close>

subsection \<open>Connecting and joining\<close>

lemma hub_inv_init: "hub_inv hub_init"
  by (simp add: hub_inv_def hub_init_def)

lemma hub_inv_channels: "hub_inv s \<Longrightarrow> distinct (obj_keys (channels s))"
  by (simp add: hub_inv_def)

lemma hub_inv_roster:
  "hub_inv s \<Longrightarrow> map_of (channels s) channel = Some roster \<Longrightarrow>
   roster \<noteq> [] \<and> distinct (obj_keys roster) \<and> channel \<noteq> [] \<and>
   channel \<notin> set object_prototype_names"
  unfolding hub_inv_def by blast

lemma hub_inv_member:
  "hub_inv s \<Longrightarrow> map_of (channels s) channel = Some roster \<Longrightarrow> map_of roster pid = Some sock \<Longrightarrow>
   sock = pid \<and> obj_has_own pid (sockets s)"
  unfolding hub_inv_def by blast

lemma hub_inv_socket_channels: "hub_inv s \<Longrightarrow> distinct (obj_keys (socket_channels s sid))"
  by (simp add: hub_inv_def)

lemma hub_inv_membership:
  "hub_inv s \<Longrightarrow>
   obj_has_own channel (socket_channels s sid) \<longleftrightarrow>
   (\<exists>roster. map_of (channels s) channel = Some roster \<and> obj_has_own sid roster)"
  unfolding hub_inv_def by blast

lemma hub_invI:
  assumes "distinct (obj_keys (channels s))"
    and "\<And>channel roster. map_of (channels s) channel = Some roster \<Longrightarrow>
           roster \<noteq> [] \<and> distinct (obj_keys roster) \<and> channel \<noteq> [] \<and>
           channel \<notin> set object_prototype_names"
    and "\<And>channel roster pid sock.
           map_of (channels s) channel = Some roster \<Longrightarrow> map_of roster pid = Some sock \<Longrightarrow>
           sock = pid \<and> obj_has_own pid (sockets s)"
    and "\<And>sid. distinct (obj_keys (socket_channels s sid))"
    and "\<And>sid channel. obj_has_own channel (socket_channels s sid) \<longleftrightarrow>
           (\<exists>roster. map_of (channels s) channel = Some roster \<and> obj_has_own sid roster)"
  shows "hub_inv s"
  unfolding hub_inv_def using assms by blast

lemma hub_inv_connection:
  assumes inv: "hub_inv s" and fresh: "\<not> obj_has_own sid (sockets s)"
  shows "hub_inv (on_connection sid s)"
proof (rule hub_invI)
  show "distinct (obj_keys (channels (on_connection sid s)))"
    using hub_inv_channels [OF inv] by (simp add: on_connection_def)
next
  fix channel roster
  assume "map_of (channels (on_connection sid s)) channel = Some roster"
  then show "roster \<noteq> [] \<and> distinct (obj_keys roster) \<and> channel \<noteq> [] \<and>
             channel \<notin> set object_prototype_names"
    using hub_inv_roster [OF inv] by (simp add: on_connection_def)
next
  fix channel roster pid sock
  assume "map_of (channels (on_connection sid s)) channel = Some roster"
    and "map_of roster pid = Some sock"
  then show "sock = pid \<and> obj_has_own pid (sockets (on_connection sid s))"
    using hub_inv_member [OF inv, of channel roster pid sock] by (simp add: on_connection_def)
next
  fix sid'
  show "distinct (obj_keys (socket_channels (on_connection sid s) sid'))"
    using hub_inv_socket_channels [OF inv] by (simp add: on_connection_def)
next
  fix sid' channel
  have no: "\<not> obj_has_own sid roster" if "map_of (channels s) channel = Some roster" for roster
  proof
    assume "obj_has_own sid roster"
    then obtain sock where "map_of roster sid = Some sock"
      by (auto simp: obj_has_own_map_of)
    with hub_inv_member [OF inv that] fresh show False by blast
  qed
  show "obj_has_own channel (socket_channels (on_connection sid s) sid') \<longleftrightarrow>
        (\<exists>roster. map_of (channels (on_connection sid s)) channel = Some roster
                   \<and> obj_has_own sid' roster)"
    using hub_inv_membership [OF inv, of channel sid'] no
    by (auto simp: on_connection_def)
qed

lemma on_join_result:
  assumes "channel \<noteq> []" and "\<not> js_in channel (socket_channels s sid)"
  shows "\<exists>s' out. on_join sid channel username s = Inr (s', out)
      \<and> map_of (channels s') =
          (map_of (channels s))(channel \<mapsto> obj_set sid sid (enumerable (js_get (channels s) channel)))
      \<and> (distinct (obj_keys (channels s)) \<longrightarrow> distinct (obj_keys (channels s')))
      \<and> sockets s' = sockets s
      \<and> usernames s' = (if username \<noteq> [] then obj_set sid username (usernames s) else usernames s)
      \<and> socket_channels s' =
          (socket_channels s)(sid := obj_set channel channel (socket_channels s sid))
      \<and> out = concat (map (\<lambda>(pid, sock).
                 [(sock, addPeer sid (display_name (usernames s') sid) False),
                  (sid, addPeer pid (display_name (usernames s') pid) True)])
                 (enumerable (js_get (channels s) channel)))
              @ [(sid, userList (map (\<lambda>(pid, sock). (pid, display_name (usernames s') pid))
                   (obj_set sid sid (enumerable (js_get (channels s) channel)))))]"
proof -
  have np: "channel \<notin> set object_prototype_names"
    using assms(2) by (simp add: js_in_def)
  show ?thesis
  proof (cases "map_of (channels s) channel")
    case None
    then have "\<not> obj_has_own channel (channels s)" by (simp add: obj_has_own_map_of)
    with None np assms show ?thesis
      by (simp add: on_join_def js_in_def Let_def js_get_None)
  next
    case (Some r)
    then have "obj_has_own channel (channels s)" by (simp add: obj_has_own_map_of)
    with Some np assms show ?thesis
      by (simp add: on_join_def js_in_def Let_def)
  qed
qed

lemma enumerable_js_get:
  "enumerable (js_get obj k) = (case map_of obj k of Some r \<Rightarrow> r | None \<Rightarrow> [])"
  by (simp add: js_get_def split: option.splits)

lemma on_join_refused:
  "channel = [] \<or> js_in channel (socket_channels s sid) \<Longrightarrow>
   on_join sid channel username s = Inr (s, [])"
  by (auto simp: on_join_def)

lemma on_join_no_throw: "\<not> threw (on_join sid channel username s)"
proof (cases "channel = [] \<or> js_in channel (socket_channels s sid)")
  case True
  then show ?thesis by (simp add: on_join_refused threw_def)
next
  case False
  then have "channel \<noteq> []" and "\<not> js_in channel (socket_channels s sid)" by simp_all
  from on_join_result [OF this, of username] show ?thesis by (auto simp: threw_def)
qed

lemma hub_inv_on_join:
  assumes inv: "hub_inv s" and conn: "obj_has_own sid (sockets s)"
    and res: "on_join sid channel username s = Inr (s', out)"
  shows "hub_inv s'"
proof (cases "channel = [] \<or> js_in channel (socket_channels s sid)")
  case True
  with res have "s' = s" using on_join_refused [of channel s sid username] by simp
  with inv show ?thesis by simp
next
  case False
  then have ne: "channel \<noteq> []" and nin: "\<not> js_in channel (socket_channels s sid)" by auto
  let ?r0 = "enumerable (js_get (channels s) channel)"
  from on_join_result [OF ne nin, of username] obtain s2 out2 where
    r2: "on_join sid channel username s = Inr (s2, out2)"
    and ch2: "map_of (channels s2) = (map_of (channels s))(channel \<mapsto> obj_set sid sid ?r0)"
    and dch2: "distinct (obj_keys (channels s)) \<longrightarrow> distinct (obj_keys (channels s2))"
    and so2: "sockets s2 = sockets s"
    and sc2: "socket_channels s2 = (socket_channels s)(sid := obj_set channel channel (socket_channels s sid))"
    by blast
  from r2 res have eq: "s2 = s'" by simp
  have ch: "map_of (channels s') = (map_of (channels s))(channel \<mapsto> obj_set sid sid ?r0)"
    using ch2 eq by simp
  have dch: "distinct (obj_keys (channels s'))"
    using dch2 eq hub_inv_channels [OF inv] by simp
  have so: "sockets s' = sockets s"
    using so2 eq by simp
  have sc: "socket_channels s' = (socket_channels s)(sid := obj_set channel channel (socket_channels s sid))"
    using sc2 eq by simp
  have np: "channel \<notin> set object_prototype_names" and nown: "\<not> obj_has_own channel (socket_channels s sid)"
    using nin by (auto simp: js_in_def)
  have r0: "distinct (obj_keys ?r0)"
    using hub_inv_roster [OF inv] by (auto simp: enumerable_js_get obj_keys_def split: option.splits)
  have r0m: "sock = pid \<and> obj_has_own pid (sockets s)" if "map_of ?r0 pid = Some sock" for pid sock
    using that hub_inv_member [OF inv] by (auto simp: enumerable_js_get split: option.splits)
  have r0s: "\<not> obj_has_own sid ?r0"
    using nown hub_inv_membership [OF inv, of channel sid]
    by (auto simp: enumerable_js_get split: option.splits)
  show ?thesis
  proof (rule hub_invI)
    show "distinct (obj_keys (channels s'))" by (rule dch)
  next
    fix c roster
    assume a: "map_of (channels s') c = Some roster"
    show "roster \<noteq> [] \<and> distinct (obj_keys roster) \<and> c \<noteq> [] \<and> c \<notin> set object_prototype_names"
    proof (cases "c = channel")
      case True
      with a have "roster = obj_set sid sid ?r0" by (simp add: ch)
      with True r0 ne np show ?thesis by simp
    next
      case False
      with a have "map_of (channels s) c = Some roster" by (simp add: ch)
      then show ?thesis by (rule hub_inv_roster [OF inv])
    qed
  next
    fix c roster pid sock
    assume a: "map_of (channels s') c = Some roster" and b: "map_of roster pid = Some sock"
    show "sock = pid \<and> obj_has_own pid (sockets s')"
    proof (cases "c = channel")
      case True
      with a have "roster = obj_set sid sid ?r0" by (simp add: ch)
      with b have "(pid = sid \<and> sock = sid) \<or> map_of ?r0 pid = Some sock"
        by (auto split: if_splits)
      then show ?thesis
        using r0m [of pid sock] conn by (auto simp: so)
    next
      case False
      with a have "map_of (channels s) c = Some roster" by (simp add: ch)
      from hub_inv_member [OF inv this b] show ?thesis by (simp add: so)
    qed
  next
    fix sid'
    show "distinct (obj_keys (socket_channels s' sid'))"
      using hub_inv_socket_channels [OF inv] by (simp add: sc)
  next
    fix sid' c
    show "obj_has_own c (socket_channels s' sid') \<longleftrightarrow>
          (\<exists>roster. map_of (channels s') c = Some roster \<and> obj_has_own sid' roster)"
    proof (cases "c = channel")
      case True
      have "obj_has_own channel (socket_channels s sid') \<longleftrightarrow> obj_has_own sid' ?r0"
        using hub_inv_membership [OF inv, of channel sid']
        by (auto simp: enumerable_js_get split: option.splits)
      then show ?thesis
        using True by (auto simp: ch sc)
    next
      case False
      then show ?thesis
        using hub_inv_membership [OF inv, of c sid'] by (auto simp: ch sc)
    qed
  qed
qed

subsection \<open>Leaving a channel\<close>

lemma hub_socket_channels_triv [simp]:
  "s\<lparr>socket_channels := (socket_channels s)(sid := socket_channels s sid)\<rparr> = s"
  by simp

lemma part_nonmember:
  assumes inv: "hub_inv s" and nm: "\<not> obj_has_own channel (socket_channels s sid)"
  shows "part sid channel s = Inr (s, [])"
proof (cases "js_in channel (socket_channels s sid)")
  case False
  then show ?thesis by (simp add: part_def)
next
  case True
  with nm have pn: "channel \<in> set object_prototype_names" by (simp add: js_in_def)
  have "map_of (channels s) channel = None"
  proof (cases "map_of (channels s) channel")
    case (Some r)
    from hub_inv_roster [OF inv Some] pn show ?thesis by simp
  qed simp
  then have "js_get (channels s) channel = Inherited"
    using pn by (simp add: js_get_None)
  then show ?thesis
    using True nm by (simp add: part_def obj_delete_absent)
qed

lemma part_member:
  assumes inv: "hub_inv s" and m: "obj_has_own channel (socket_channels s sid)"
  shows "\<exists>roster. map_of (channels s) channel = Some roster \<and> obj_has_own sid roster \<and>
     part sid channel s =
       Inr (s\<lparr>socket_channels :=
                (socket_channels s)(sid := obj_delete channel (socket_channels s sid)),
              channels :=
                (if obj_delete sid roster = []
                 then obj_delete channel (obj_set channel (obj_delete sid roster) (channels s))
                 else obj_set channel (obj_delete sid roster) (channels s))\<rparr>,
            concat (map (\<lambda>(pid, sock). [(sock, removePeer sid), (sid, removePeer pid)])
                      (obj_delete sid roster)))"
proof -
  from m hub_inv_membership [OF inv, of channel sid] obtain roster where
    r: "map_of (channels s) channel = Some roster" and o: "obj_has_own sid roster" by blast
  have "js_in channel (socket_channels s sid)" using m by (simp add: js_in_def)
  then have "part sid channel s =
       Inr (s\<lparr>socket_channels :=
                (socket_channels s)(sid := obj_delete channel (socket_channels s sid)),
              channels :=
                (if obj_delete sid roster = []
                 then obj_delete channel (obj_set channel (obj_delete sid roster) (channels s))
                 else obj_set channel (obj_delete sid roster) (channels s))\<rparr>,
            concat (map (\<lambda>(pid, sock). [(sock, removePeer sid), (sid, removePeer pid)])
                      (obj_delete sid roster)))"
    using r by (simp add: part_def Let_def)
  with r o show ?thesis by blast
qed

lemma part_no_throw: "hub_inv s \<Longrightarrow> \<not> threw (part sid channel s)"
  using part_member [of s channel sid] part_nonmember [of s channel sid]
  by (cases "obj_has_own channel (socket_channels s sid)") (auto simp: threw_def)

lemma part_keeps_other_keys:
  assumes "part sid channel s = Inr (s', out)" and "k \<noteq> channel"
    and "obj_has_own k (socket_channels s sid)"
  shows "obj_has_own k (socket_channels s' sid)"
  using assms
  by (auto simp: part_def Let_def split: if_splits js_value.splits)

lemma part_socket_channels:
  assumes "hub_inv s" and "part sid channel s = Inr (s', out)"
  shows "socket_channels s' = (socket_channels s)(sid := obj_delete channel (socket_channels s sid))"
    and "sockets s' = sockets s" and "usernames s' = usernames s"
proof -
  show "socket_channels s' = (socket_channels s)(sid := obj_delete channel (socket_channels s sid))"
  proof (cases "obj_has_own channel (socket_channels s sid)")
    case True
    from part_member [OF assms(1) True] assms(2) show ?thesis by auto
  next
    case False
    from part_nonmember [OF assms(1) False] assms(2) False show ?thesis
      by (auto simp: obj_delete_absent)
  qed
  show "sockets s' = sockets s" and "usernames s' = usernames s"
    using assms(2) by (auto simp: part_def Let_def split: if_splits js_value.splits)
qed

lemma hub_inv_part:
  assumes inv: "hub_inv s" and res: "part sid channel s = Inr (s', out)"
  shows "hub_inv s'"
proof (cases "obj_has_own channel (socket_channels s sid)")
  case False
  from part_nonmember [OF inv False] res inv show ?thesis by simp
next
  case True
  from part_member [OF inv True] res obtain roster where
    r: "map_of (channels s) channel = Some roster" and o: "obj_has_own sid roster"
    and s': "s' = s\<lparr>socket_channels :=
                (socket_channels s)(sid := obj_delete channel (socket_channels s sid)),
              channels :=
                (if obj_delete sid roster = []
                 then obj_delete channel (obj_set channel (obj_delete sid roster) (channels s))
                 else obj_set channel (obj_delete sid roster) (channels s))\<rparr>"
    by auto
  let ?r' = "obj_delete sid roster"
  have ch: "map_of (channels s') =
      (map_of (channels s))(channel := if ?r' = [] then None else Some ?r')"
    by (simp add: s')
  have sc: "socket_channels s' = (socket_channels s)(sid := obj_delete channel (socket_channels s sid))"
    and so: "sockets s' = sockets s"
    by (simp_all add: s')
  have dr: "distinct (obj_keys roster)"
    using hub_inv_roster [OF inv r] by simp
  show ?thesis
  proof (rule hub_invI)
    show "distinct (obj_keys (channels s'))"
      using hub_inv_channels [OF inv] by (simp add: s')
  next
    fix c ro
    assume a: "map_of (channels s') c = Some ro"
    show "ro \<noteq> [] \<and> distinct (obj_keys ro) \<and> c \<noteq> [] \<and> c \<notin> set object_prototype_names"
    proof (cases "c = channel")
      case True
      with a have "?r' \<noteq> []" and "ro = ?r'" by (auto simp: ch split: if_splits)
      with True dr hub_inv_roster [OF inv r] show ?thesis by simp
    next
      case False
      with a have "map_of (channels s) c = Some ro" by (simp add: ch)
      then show ?thesis by (rule hub_inv_roster [OF inv])
    qed
  next
    fix c ro pid sock
    assume a: "map_of (channels s') c = Some ro" and b: "map_of ro pid = Some sock"
    show "sock = pid \<and> obj_has_own pid (sockets s')"
    proof (cases "c = channel")
      case True
      with a have "ro = ?r'" by (auto simp: ch split: if_splits)
      with b have "map_of roster pid = Some sock" by (auto split: if_splits)
      from hub_inv_member [OF inv r this] show ?thesis by (simp add: so)
    next
      case False
      with a have "map_of (channels s) c = Some ro" by (simp add: ch)
      from hub_inv_member [OF inv this b] show ?thesis by (simp add: so)
    qed
  next
    fix sid'
    show "distinct (obj_keys (socket_channels s' sid'))"
      using hub_inv_socket_channels [OF inv] by (simp add: sc)
  next
    fix sid' c
    show "obj_has_own c (socket_channels s' sid') \<longleftrightarrow>
          (\<exists>ro. map_of (channels s') c = Some ro \<and> obj_has_own sid' ro)"
    proof (cases "c = channel")
      case False
      then show ?thesis
        using hub_inv_membership [OF inv, of c sid'] by (auto simp: ch sc)
    next
      case True
      show ?thesis
      proof (cases "sid' = sid")
        case True
        with \<open>c = channel\<close> show ?thesis by (auto simp: ch sc)
      next
        case False
        have "obj_has_own channel (socket_channels s sid') \<longleftrightarrow> obj_has_own sid' roster"
          using hub_inv_membership [OF inv, of channel sid'] r by simp
        moreover have "obj_has_own sid' roster \<Longrightarrow> ?r' \<noteq> []"
        proof
          assume a: "obj_has_own sid' roster" and e: "?r' = []"
          from a False have "obj_has_own sid' ?r'" by simp
          with e show False by simp
        qed
        ultimately show ?thesis
          using False \<open>c = channel\<close> by (auto simp: ch sc)
      qed
    qed
  qed
qed

subsection \<open>Disconnecting, and every reachable state\<close>

lemma leave_all_inv:
  assumes "hub_inv s"
  shows "\<exists>s' out. leave_all sid keys s = Inr (s', out) \<and> hub_inv s'
     \<and> socket_channels s' =
        (socket_channels s)(sid := filter (\<lambda>(k, v). k \<notin> set keys) (socket_channels s sid))
     \<and> sockets s' = sockets s \<and> usernames s' = usernames s"
  using assms
proof (induction keys arbitrary: s)
  case Nil
  then show ?case by simp
next
  case (Cons k keys)
  from part_no_throw [OF Cons.prems, of sid k] obtain s1 out1 where
    p: "part sid k s = Inr (s1, out1)"
    by (cases "part sid k s") (auto simp: threw_def)
  have inv1: "hub_inv s1" by (rule hub_inv_part [OF Cons.prems p])
  note sc1 = part_socket_channels [OF Cons.prems p]
  from Cons.IH [OF inv1] obtain s2 out2 where
    l: "leave_all sid keys s1 = Inr (s2, out2)" and inv2: "hub_inv s2"
    and sc2: "socket_channels s2 =
        (socket_channels s1)(sid := filter (\<lambda>(k, v). k \<notin> set keys) (socket_channels s1 sid))"
    and so2: "sockets s2 = sockets s1" and us2: "usernames s2 = usernames s1"
    by blast
  have "filter (\<lambda>(k', v). k' \<notin> set keys) (obj_delete k (socket_channels s sid))
      = filter (\<lambda>(k', v). k' \<notin> set (k # keys)) (socket_channels s sid)"
    by (auto simp: obj_delete_def intro: filter_cong)
  then have sc: "socket_channels s2 =
        (socket_channels s)(sid := filter (\<lambda>(k', v). k' \<notin> set (k # keys)) (socket_channels s sid))"
    by (simp add: sc2 sc1(1))
  from p l have "leave_all sid (k # keys) s = Inr (s2, out1 @ out2)" by simp
  moreover have "sockets s2 = sockets s" and "usernames s2 = usernames s"
    using so2 us2 sc1 by simp_all
  ultimately show ?case using inv2 sc by blast
qed

lemma filter_all_keys: "filter (\<lambda>(k, v). k \<notin> set (obj_keys obj)) obj = []"
  by (force simp: obj_keys_def filter_empty_conv)

lemma disconnect_loop_leave_all:
  assumes "distinct keys" and "\<forall>k \<in> set keys. obj_has_own k (socket_channels s sid)"
  shows "disconnect_loop sid keys s out =
     (case leave_all sid keys s of
        Inl e \<Rightarrow> Inl e
      | Inr (s', out') \<Rightarrow> Inr (s', out @ out'))"
  using assms
proof (induction keys arbitrary: s out)
  case Nil
  show ?case by simp
next
  case (Cons k keys)
  have own: "obj_has_own k (socket_channels s sid)" using Cons.prems(2) by simp
  show ?case
  proof (cases "part sid k s")
    case (Inl e)
    with own show ?thesis by simp
  next
    case (Inr p)
    obtain s1 out1 where p: "p = (s1, out1)" by (cases p)
    have "\<forall>k' \<in> set keys. obj_has_own k' (socket_channels s1 sid)"
    proof
      fix k' assume k': "k' \<in> set keys"
      with Cons.prems have "k' \<noteq> k" and "obj_has_own k' (socket_channels s sid)" by auto
      with part_keeps_other_keys [of sid k s s1 out1 k'] Inr p
      show "obj_has_own k' (socket_channels s1 sid)" by simp
    qed
    with Cons.IH [of s1 "out @ out1"] Cons.prems(1)
    have "disconnect_loop sid keys s1 (out @ out1) =
       (case leave_all sid keys s1 of Inl e \<Rightarrow> Inl e | Inr (s', out') \<Rightarrow> Inr (s', (out @ out1) @ out'))"
      by simp
    with own Inr p show ?thesis
      by (simp split: sum.splits prod.splits)
  qed
qed

lemma on_disconnect_eq:
  assumes "hub_inv s"
  shows "on_disconnect sid s = disconnect_spec sid s"
proof -
  have "disconnect_loop sid (obj_keys (socket_channels s sid)) s [] =
     (case leave_all sid (obj_keys (socket_channels s sid)) s of
        Inl e \<Rightarrow> Inl e
      | Inr (s', out') \<Rightarrow> Inr (s', [] @ out'))"
    using hub_inv_socket_channels [OF assms, of sid]
    by (intro disconnect_loop_leave_all) (simp_all add: obj_has_own_def)
  then show ?thesis
    by (simp add: on_disconnect_def disconnect_spec_def purge_identity_def
        split: sum.splits prod.splits)
qed

lemma hub_inv_usernames [simp]: "hub_inv (s\<lparr>usernames := u\<rparr>) = hub_inv s"
  by (simp add: hub_inv_def)

lemma disconnect_spec_result:
  assumes inv: "hub_inv s"
  shows "\<exists>s1 out. leave_all sid (obj_keys (socket_channels s sid)) s = Inr (s1, out)
     \<and> disconnect_spec sid s = Inr (purge_identity sid s1, out)
     \<and> hub_inv s1 \<and> socket_channels s1 = (socket_channels s)(sid := [])
     \<and> sockets s1 = sockets s \<and> usernames s1 = usernames s
     \<and> hub_inv (purge_identity sid s1)"
proof -
  from leave_all_inv [OF inv, of sid "obj_keys (socket_channels s sid)"] obtain s1 out where
    l: "leave_all sid (obj_keys (socket_channels s sid)) s = Inr (s1, out)" and inv1: "hub_inv s1"
    and sc1: "socket_channels s1 = (socket_channels s)(sid := [])"
    and so1: "sockets s1 = sockets s" and us1: "usernames s1 = usernames s"
    by (auto simp: filter_all_keys)
  have "hub_inv (s1\<lparr>sockets := obj_delete sid (sockets s1)\<rparr>)"
  proof (rule hub_invI)
    fix c ro pid sock
    assume a: "map_of (channels (s1\<lparr>sockets := obj_delete sid (sockets s1)\<rparr>)) c = Some ro"
      and b: "map_of ro pid = Some sock"
    then have a': "map_of (channels s1) c = Some ro" by simp
    have "pid \<noteq> sid"
    proof
      assume "pid = sid"
      with b have "obj_has_own sid ro" by (simp add: obj_has_own_map_of)
      with a' hub_inv_membership [OF inv1, of c sid] have "obj_has_own c (socket_channels s1 sid)"
        by blast
      then show False by (simp add: sc1)
    qed
    with hub_inv_member [OF inv1 a' b]
    show "sock = pid \<and> obj_has_own pid (sockets (s1\<lparr>sockets := obj_delete sid (sockets s1)\<rparr>))"
      by simp
  qed (use inv1 hub_inv_channels hub_inv_roster hub_inv_socket_channels hub_inv_membership in simp_all)
  then have "hub_inv (purge_identity sid s1)"
    by (simp add: purge_identity_def)
  with l inv1 sc1 so1 us1 show ?thesis
    by (simp add: disconnect_spec_def)
qed

lemma hub_inv_handle:
  assumes inv: "hub_inv s" and conn: "obj_has_own sid (sockets s)"
    and res: "handle sid m s = Inr (s', out)"
  shows "hub_inv s'"
proof (cases m)
  case Disconnect
  with res on_disconnect_eq [OF inv, of sid] disconnect_spec_result [OF inv, of sid]
  show ?thesis by auto
next
  case (SetUsername u)
  with res inv show ?thesis by (auto simp: on_setUsername_def)
next
  case (ChatMessage c t n)
  with res inv show ?thesis by (auto simp: on_chatMessage_def split: if_splits)
next
  case (Join c u)
  with res show ?thesis using hub_inv_on_join [OF inv conn] by simp
next
  case (Part c)
  with res show ?thesis using hub_inv_part [OF inv] by simp
next
  case (RelayICECandidate p i)
  with res inv show ?thesis
    by (auto simp: on_relayICECandidate_def split: if_splits js_value.splits)
next
  case (RelaySessionDescription p d)
  with res inv show ?thesis
    by (auto simp: on_relaySessionDescription_def split: if_splits js_value.splits)
next
  case (MuteStatus c b)
  with res inv show ?thesis by (auto simp: on_muteStatus_def split: if_splits)
next
  case (SpeakingStatus c b)
  with res inv show ?thesis by (auto simp: on_speakingStatus_def split: if_splits)
qed

lemma reachable_inv: "reachable s \<Longrightarrow> hub_inv s"
proof (induction rule: reachable.induct)
  case init
  show ?case by (rule hub_inv_init)
next
  case (connect s sid)
  then show ?case by (simp add: hub_inv_connection)
next
  case (deliver s sid m s' out)
  then show ?case by (blast intro: hub_inv_handle)
qed

section \<open>The two small runs, evaluated\<close>

lemmas hub_eval = hub_init_def on_connection_def on_join_def part_def on_disconnect_def
  on_chatMessage_def on_muteStatus_def on_speakingStatus_def on_relayICECandidate_def
  on_relaySessionDescription_def on_setUsername_def no_such_channel_def
  js_in_def js_get_def obj_has_own_def obj_keys_def obj_set_def obj_delete_def
  key_before_def is_array_index_def is_digit_def object_prototype_names_def display_name_def
  state_of_def emitted_def threw_def received_def members_def Let_def

lemma hub_A_eval:
  "channels hub_A = [(''room1'', [(''A'', ''A'')])]"
  "sockets hub_A = [(''A'', ''A''), (''B'', ''B'')]"
  "usernames hub_A = [(''A'', ''alice'')]"
  "socket_channels hub_A ''A'' = [(''room1'', ''room1'')]"
  "socket_channels hub_A ''B'' = []"
  by (simp_all add: hub_A_def hub_eval)

lemma hub_AB_eval:
  "channels hub_AB = [(''room1'', [(''A'', ''A''), (''B'', ''B'')])]"
  "sockets hub_AB = [(''A'', ''A''), (''B'', ''B'')]"
  "usernames hub_AB = [(''A'', ''alice'')]"
  "socket_channels hub_AB ''A'' = [(''room1'', ''room1'')]"
  "socket_channels hub_AB ''B'' = [(''room1'', ''room1'')]"
  "emitted (on_join ''B'' ''room1'' [] hub_A) =
     [(''A'', addPeer ''B'' ''B'' False), (''B'', addPeer ''A'' ''alice'' True),
      (''B'', userList [(''A'', ''alice''), (''B'', ''B'')])]"
  by (simp_all add: hub_AB_def hub_A_eval hub_eval)

lemma outcome_eq: "\<not> threw r \<Longrightarrow> r = Inr (state_of r, emitted r)"
  by (auto simp: threw_def state_of_def emitted_def split: sum.splits)

lemma reachable_deliver:
  assumes "reachable s" and "obj_has_own sid (sockets s)" and "\<not> threw (handle sid m s)"
  shows "reachable (state_of (handle sid m s))"
  using assms(1,2) outcome_eq [OF assms(3)] by (rule reachable.deliver)

lemma reachable_hub_A: "reachable hub_A"
proof -
  have "reachable (on_connection ''A'' hub_init)"
    by (rule reachable.connect [OF reachable.init]) (simp_all add: hub_eval)
  then have "reachable (on_connection ''B'' (on_connection ''A'' hub_init))"
    by (rule reachable.connect) (simp_all add: hub_eval)
  then have "reachable (state_of (handle ''A'' (Join ''room1'' ''alice'')
                          (on_connection ''B'' (on_connection ''A'' hub_init))))"
    by (rule reachable_deliver) (simp_all add: hub_eval)
  then show ?thesis by (simp add: hub_A_def)
qed

lemma reachable_hub_AB: "reachable hub_AB"
proof -
  have "reachable (state_of (handle ''B'' (Join ''room1'' []) hub_A))"
    by (rule reachable_deliver [OF reachable_hub_A]) (simp_all add: hub_A_eval hub_eval)
  then show ?thesis by (simp add: hub_AB_def)
qed

lemma members_hub_A: "members hub_A ''room1'' = [''A'']"
  by (simp add: members_def js_get_def obj_keys_def hub_A_eval)

lemma members_hub_AB: "members hub_AB ''room1'' = [''A'', ''B'']"
  by (simp add: members_def js_get_def obj_keys_def hub_AB_eval)

text \<open>Members and rosters.\<close>

lemma members_Some: "map_of (channels s) channel = Some roster \<Longrightarrow> members s channel = obj_keys roster"
  by (simp add: members_def)

lemma members_nonempty:
  assumes "members s channel \<noteq> []"
  obtains roster where "map_of (channels s) channel = Some roster" and "members s channel = obj_keys roster"
  using assms by (auto simp: members_def enumerable_js_get split: option.splits)

lemma roster_entries:
  assumes inv: "hub_inv s" and r: "map_of (channels s) channel = Some roster"
  shows "roster = map (\<lambda>pid. (pid, pid)) (obj_keys roster)"
proof -
  have d: "distinct (map fst roster)"
    using hub_inv_roster [OF inv r] by (simp add: obj_keys_def)
  have "p = (fst p, fst p)" if "p \<in> set roster" for p
  proof -
    obtain pid sock where p: "p = (pid, sock)" by (cases p)
    with that d have "map_of roster pid = Some sock" by simp
    from hub_inv_member [OF inv r this] p show ?thesis by simp
  qed
  then have "map (\<lambda>p. (fst p, fst p)) roster = map (\<lambda>p. p) roster"
    by (intro map_cong) auto
  then show ?thesis by (simp add: obj_keys_def comp_def)
qed

lemma received_append [simp]: "received (xs @ ys) sid = received xs sid @ received ys sid"
  by (simp add: received_def)

lemma received_pairs_other:
  assumes "A \<notin> set ks" and "A \<noteq> sid"
  shows "received (concat (map (\<lambda>pid. [(pid, e), (sid, f pid)]) ks)) A = []"
  using assms by (induction ks) (auto simp: received_def)

lemma received_pairs_member:
  assumes "distinct ks" and "A \<in> set ks" and "A \<noteq> sid"
  shows "received (concat (map (\<lambda>pid. [(pid, e), (sid, f pid)]) ks)) A = [e]"
  using assms
proof (induction ks)
  case Nil
  then show ?case by simp
next
  case (Cons k ks)
  show ?case
  proof (cases "A = k")
    case True
    with Cons.prems have "A \<notin> set ks" by simp
    from received_pairs_other [OF this Cons.prems(3), of e f] True Cons.prems(3)
    show ?thesis by (simp add: received_def)
  next
    case False
    with Cons show ?thesis by (simp add: received_def)
  qed
qed

lemma received_pairs_self:
  assumes "sid \<notin> set ks"
  shows "received (concat (map (\<lambda>pid. [(pid, e), (sid, f pid)]) ks)) sid = map f ks"
  using assms by (induction ks) (auto simp: received_def)

section \<open>The claims about the server\<close>

lemma member_iff:
  assumes inv: "hub_inv s"
  shows "sid \<in> set (members s channel) \<longleftrightarrow> obj_has_own channel (socket_channels s sid)"
proof (cases "map_of (channels s) channel")
  case None
  then have "members s channel = []" by (simp add: members_def enumerable_js_get)
  with None hub_inv_membership [OF inv, of channel sid] show ?thesis by simp
next
  case (Some roster)
  then have "members s channel = obj_keys roster" by (rule members_Some)
  with Some hub_inv_membership [OF inv, of channel sid] show ?thesis
    by (simp add: obj_has_own_def)
qed

text \<open>
  Claim C1. A connected socket \<open>sid\<close> joins a channel that has members and does not list
  \<open>sid\<close>. The handler returns; for every member it emits, in this order, an \<open>addPeer\<close>
  naming \<open>sid\<close> with \<open>should_create_offer = false\<close> on the member's socket and an
  \<open>addPeer\<close> naming the member with \<open>should_create_offer = true\<close> on the joining socket,
  and then the user list. So a member \<open>A\<close> that joined before receives exactly one event,
  the \<open>addPeer\<close> for the newcomer with the flag false, and the newcomer receives one
  \<open>addPeer\<close> with the flag true for each member. Afterwards the newcomer is a member.
\<close>

theorem join_initiator_asymmetry:
  assumes "reachable s" and "obj_has_own sid (sockets s)"
    and "members s channel \<noteq> []" and "sid \<notin> set (members s channel)"
  shows "let r = on_join sid channel username s;
             name = display_name (usernames (state_of r))
         in \<not> threw r
          \<and> emitted r =
              concat (map (\<lambda>pid. [(pid, addPeer sid (name sid) False),
                                   (sid, addPeer pid (name pid) True)]) (members s channel))
              @ [(sid, userList (map (\<lambda>pid. (pid, name pid)) (members (state_of r) channel)))]
          \<and> (\<forall>A \<in> set (members s channel). received (emitted r) A = [addPeer sid (name sid) False])
          \<and> received (emitted r) sid =
              map (\<lambda>pid. addPeer pid (name pid) True) (members s channel)
              @ [userList (map (\<lambda>pid. (pid, name pid)) (members (state_of r) channel))]
          \<and> set (members (state_of r) channel) = insert sid (set (members s channel))"
proof -
  have inv: "hub_inv s" using assms(1) by (rule reachable_inv)
  from assms(3) obtain roster where
    r: "map_of (channels s) channel = Some roster" and m: "members s channel = obj_keys roster"
    by (rule members_nonempty)
  have ent: "roster = map (\<lambda>pid. (pid, pid)) (obj_keys roster)"
    by (rule roster_entries [OF inv r])
  have d: "distinct (obj_keys roster)" and ne: "channel \<noteq> []"
    and np: "channel \<notin> set object_prototype_names"
    using hub_inv_roster [OF inv r] by simp_all
  have "\<not> obj_has_own channel (socket_channels s sid)"
    using assms(4) member_iff [OF inv] by simp
  with np have nin: "\<not> js_in channel (socket_channels s sid)" by (simp add: js_in_def)
  from on_join_result [OF ne nin, of username] r obtain s' out where
    res: "on_join sid channel username s = Inr (s', out)"
    and ch: "map_of (channels s') = (map_of (channels s))(channel \<mapsto> obj_set sid sid roster)"
    and out: "out = concat (map (\<lambda>(pid, sock).
                 [(sock, addPeer sid (display_name (usernames s') sid) False),
                  (sid, addPeer pid (display_name (usernames s') pid) True)]) roster)
              @ [(sid, userList (map (\<lambda>(pid, sock). (pid, display_name (usernames s') pid))
                   (obj_set sid sid roster)))]"
    by auto
  let ?name = "display_name (usernames s')"
  let ?ks = "obj_keys roster"
  let ?pairs = "concat (map (\<lambda>pid. [(pid, addPeer sid (?name sid) False),
                                      (sid, addPeer pid (?name pid) True)]) ?ks)"
  have m': "members s' channel = obj_keys (obj_set sid sid roster)"
    by (rule members_Some) (simp add: ch)
  let ?ul = "userList (map (\<lambda>pid. (pid, ?name pid)) (members s' channel))"
  have "map (\<lambda>(pid, sock). [(sock, addPeer sid (?name sid) False),
                              (sid, addPeer pid (?name pid) True)]) roster
      = map (\<lambda>pid. [(pid, addPeer sid (?name sid) False),
                        (sid, addPeer pid (?name pid) True)]) ?ks"
    by (subst ent) (simp add: comp_def)
  moreover have "map (\<lambda>(pid, sock). (pid, ?name pid)) (obj_set sid sid roster)
      = map (\<lambda>pid. (pid, ?name pid)) (members s' channel)"
    by (simp add: m' obj_keys_def comp_def case_prod_unfold)
  ultimately have out': "out = ?pairs @ [(sid, ?ul)]"
    by (simp add: out)
  have notin: "sid \<notin> set ?ks" using assms(4) m by simp
  have rec_member: "received out A = [addPeer sid (?name sid) False]" if "A \<in> set ?ks" for A
  proof -
    from that notin have "A \<noteq> sid" by auto
    with received_pairs_member [OF d that this] show ?thesis
      by (simp add: out') (simp add: received_def)
  qed
  have rec_self: "received out sid = map (\<lambda>pid. addPeer pid (?name pid) True) ?ks @ [?ul]"
    using received_pairs_self [OF notin] by (simp add: out') (simp add: received_def)
  have "set (members s' channel) = insert sid (set ?ks)"
    by (simp add: m')
  with res out' rec_member rec_self m show ?thesis
    by (simp add: Let_def threw_def state_of_def emitted_def)
qed

theorem join_initiator_asymmetry_witness:
  "\<not> threw (on_join ''B'' ''room1'' [] hub_A)
   \<and> emitted (on_join ''B'' ''room1'' [] hub_A) =
       [(''A'', addPeer ''B'' ''B'' False), (''B'', addPeer ''A'' ''alice'' True),
        (''B'', userList [(''A'', ''alice''), (''B'', ''B'')])]
   \<and> received (emitted (on_join ''B'' ''room1'' [] hub_A)) ''A'' = [addPeer ''B'' ''B'' False]
   \<and> received (emitted (on_join ''B'' ''room1'' [] hub_A)) ''B'' =
       [addPeer ''A'' ''alice'' True, userList [(''A'', ''alice''), (''B'', ''B'')]]"
proof -
  have h2: "obj_has_own ''B'' (sockets hub_A)"
    by (simp add: obj_has_own_def obj_keys_def hub_A_eval)
  have h3: "members hub_A ''room1'' \<noteq> []" and h4: "''B'' \<notin> set (members hub_A ''room1'')"
    by (simp_all add: members_hub_A)
  have st: "state_of (on_join ''B'' ''room1'' [] hub_A) = hub_AB"
    by (simp add: hub_AB_def)
  from join_initiator_asymmetry [OF reachable_hub_A h2 h3 h4, of "[]"]
  show ?thesis
    by (simp add: Let_def st members_hub_A members_hub_AB hub_AB_eval display_name_def received_def)
qed

text \<open>
  Claim C5. A socket that is a member of a channel joins it again: the handler returns the
  state it was given, registries, membership set and user names included, and emits nothing.
\<close>

theorem join_again_no_effect:
  assumes "reachable s" and "sid \<in> set (members s channel)"
  shows "on_join sid channel username s = Inr (s, [])"
proof -
  have inv: "hub_inv s" using assms(1) by (rule reachable_inv)
  from assms(2) member_iff [OF inv] have "obj_has_own channel (socket_channels s sid)" by simp
  then have "js_in channel (socket_channels s sid)" by (simp add: js_in_def)
  then show ?thesis by (simp add: on_join_refused)
qed

theorem join_again_no_effect_witness:
  "''A'' \<in> set (members hub_A ''room1'')
   \<and> on_join ''A'' ''room1'' ''alice'' hub_A = Inr (hub_A, [])"
proof -
  have h: "''A'' \<in> set (members hub_A ''room1'')" by (simp add: members_hub_A)
  from h join_again_no_effect [OF reachable_hub_A h, of "''alice''"] show ?thesis
    by (intro conjI)
qed

lemma pairs_roster:
  "roster = map (\<lambda>pid. (pid, pid)) ks \<Longrightarrow>
   map (\<lambda>(pid, sock). g pid sock) (obj_delete sid roster)
   = map (\<lambda>pid. g pid pid) (filter (\<lambda>pid. pid \<noteq> sid) ks)"
  by (simp add: obj_delete_def filter_map comp_def)

text \<open>
  Claim C6. When a member \<open>sid\<close> leaves, \<open>part\<close> returns, the channel's members are the
  former ones without \<open>sid\<close>, the socket no longer lists the channel, and for every
  remaining member a \<open>removePeer\<close> naming \<open>sid\<close> is emitted on the member's socket and a
  \<open>removePeer\<close> naming the member on the leaving socket. When \<open>sid\<close> is not a member,
  \<open>part\<close> returns the state unchanged and emits nothing.
\<close>

theorem part_notifies_both_sides:
  assumes "reachable s"
  shows "let r = part sid channel s; remaining = filter (\<lambda>pid. pid \<noteq> sid) (members s channel)
         in (sid \<in> set (members s channel) \<longrightarrow>
               \<not> threw r
             \<and> members (state_of r) channel = remaining
             \<and> \<not> obj_has_own channel (socket_channels (state_of r) sid)
             \<and> emitted r = concat (map (\<lambda>pid. [(pid, removePeer sid), (sid, removePeer pid)])
                                      remaining)
             \<and> (\<forall>m \<in> set remaining. received (emitted r) m = [removePeer sid])
             \<and> received (emitted r) sid = map removePeer remaining)
          \<and> (sid \<notin> set (members s channel) \<longrightarrow> r = Inr (s, []))"
proof -
  have inv: "hub_inv s" using assms by (rule reachable_inv)
  let ?rem = "filter (\<lambda>pid. pid \<noteq> sid) (members s channel)"
  have nonmember: "part sid channel s = Inr (s, [])" if "sid \<notin> set (members s channel)"
    using that member_iff [OF inv] part_nonmember [OF inv] by simp
  have member: "\<not> threw (part sid channel s)
             \<and> members (state_of (part sid channel s)) channel = ?rem
             \<and> \<not> obj_has_own channel (socket_channels (state_of (part sid channel s)) sid)
             \<and> emitted (part sid channel s)
                = concat (map (\<lambda>pid. [(pid, removePeer sid), (sid, removePeer pid)]) ?rem)
             \<and> (\<forall>m \<in> set ?rem. received (emitted (part sid channel s)) m = [removePeer sid])
             \<and> received (emitted (part sid channel s)) sid = map removePeer ?rem"
    if "sid \<in> set (members s channel)"
  proof -
    from that member_iff [OF inv] have own: "obj_has_own channel (socket_channels s sid)" by simp
    from part_member [OF inv own] obtain roster where
      r: "map_of (channels s) channel = Some roster"
      and p: "part sid channel s =
       Inr (s\<lparr>socket_channels :=
                (socket_channels s)(sid := obj_delete channel (socket_channels s sid)),
              channels :=
                (if obj_delete sid roster = []
                 then obj_delete channel (obj_set channel (obj_delete sid roster) (channels s))
                 else obj_set channel (obj_delete sid roster) (channels s))\<rparr>,
            concat (map (\<lambda>(pid, sock). [(sock, removePeer sid), (sid, removePeer pid)])
                      (obj_delete sid roster)))"
      by blast
    have m: "members s channel = obj_keys roster" by (rule members_Some [OF r])
    have ent: "roster = map (\<lambda>pid. (pid, pid)) (obj_keys roster)"
      by (rule roster_entries [OF inv r])
    have d: "distinct ?rem"
      using hub_inv_roster [OF inv r] by (simp add: m)
    have out: "emitted (part sid channel s)
        = concat (map (\<lambda>pid. [(pid, removePeer sid), (sid, removePeer pid)]) ?rem)"
      using pairs_roster [OF ent, of "\<lambda>pid sock. [(sock, removePeer sid), (sid, removePeer pid)]" sid]
      by (simp add: p emitted_def m)
    have kd: "obj_keys (obj_delete sid roster) = ?rem"
      by (simp add: obj_keys_obj_delete m)
    have mem: "members (state_of (part sid channel s)) channel = ?rem"
    proof (cases "obj_delete sid roster = []")
      case True
      with kd have "?rem = []" by simp
      with True show ?thesis
        by (simp add: p state_of_def members_def enumerable_js_get)
    next
      case False
      with kd show ?thesis
        by (simp add: p state_of_def members_def enumerable_js_get)
    qed
    have sc: "\<not> obj_has_own channel (socket_channels (state_of (part sid channel s)) sid)"
      by (simp add: p state_of_def)
    have "received (emitted (part sid channel s)) m = [removePeer sid]" if "m \<in> set ?rem" for m
    proof -
      from that have "m \<noteq> sid" by simp
      from received_pairs_member [OF d that this] show ?thesis by (simp add: out)
    qed
    moreover have "received (emitted (part sid channel s)) sid = map removePeer ?rem"
      using received_pairs_self [of sid ?rem] by (simp add: out)
    moreover have "\<not> threw (part sid channel s)" by (simp add: p threw_def)
    ultimately show ?thesis using out mem sc by blast
  qed
  from member nonmember show ?thesis unfolding Let_def by blast
qed

theorem part_notifies_both_sides_witness:
  "\<not> threw (part ''A'' ''room1'' hub_AB)
   \<and> members (state_of (part ''A'' ''room1'' hub_AB)) ''room1'' = [''B'']
   \<and> emitted (part ''A'' ''room1'' hub_AB) = [(''B'', removePeer ''A''), (''A'', removePeer ''B'')]
   \<and> received (emitted (part ''A'' ''room1'' hub_AB)) ''B'' = [removePeer ''A'']
   \<and> received (emitted (part ''A'' ''room1'' hub_AB)) ''A'' = [removePeer ''B'']
   \<and> part ''B'' ''room1'' hub_A = Inr (hub_A, [])"
  using part_notifies_both_sides [OF reachable_hub_AB, of "''A''" "''room1''"]
    part_notifies_both_sides [OF reachable_hub_A, of "''B''" "''room1''"]
  by (simp add: Let_def members_hub_A members_hub_AB received_def)

lemma hub_inv_no_empty_channel:
  assumes inv: "hub_inv s"
  shows "no_empty_channel s"
  unfolding no_empty_channel_def list_all_iff
proof
  fix p assume p: "p \<in> set (channels s)"
  obtain channel roster where pe: "p = (channel, roster)" by (cases p)
  have "distinct (map fst (channels s))"
    using hub_inv_channels [OF inv] by (simp add: obj_keys_def)
  with p pe have "map_of (channels s) channel = Some roster" by simp
  from hub_inv_roster [OF inv this] pe show "case p of (channel, roster) \<Rightarrow> roster \<noteq> []"
    by simp
qed

text \<open>
  Claim C7. In every state of a run, and so after every handler that returns, each channel
  in the registry \<open>channels\<close> has a member. A join into a channel that is not registered
  creates it with the joining socket as its only member, and when the only member leaves
  the channel is deleted from the registry.
\<close>

theorem channels_never_empty:
  assumes "reachable s"
  shows "no_empty_channel s
       \<and> (\<forall>sid m. obj_has_own sid (sockets s) \<and> \<not> threw (handle sid m s)
              \<longrightarrow> no_empty_channel (state_of (handle sid m s)))
       \<and> (\<forall>sid channel username.
              channel \<noteq> [] \<and> channel \<notin> set object_prototype_names
              \<and> \<not> obj_has_own channel (channels s)
              \<longrightarrow> members (state_of (on_join sid channel username s)) channel = [sid])
       \<and> (\<forall>sid channel.
              members s channel = [sid]
              \<longrightarrow> \<not> obj_has_own channel (channels (state_of (part sid channel s))))"
proof -
  have inv: "hub_inv s" using assms by (rule reachable_inv)
  have a: "no_empty_channel s" by (rule hub_inv_no_empty_channel [OF inv])
  have b: "no_empty_channel (state_of (handle sid m s))"
    if "obj_has_own sid (sockets s)" and "\<not> threw (handle sid m s)" for sid m
  proof -
    from that assms have "reachable (state_of (handle sid m s))"
      by (simp add: reachable_deliver)
    then show ?thesis by (simp add: reachable_inv hub_inv_no_empty_channel)
  qed
  have c: "members (state_of (on_join sid channel username s)) channel = [sid]"
    if ne: "channel \<noteq> []" and np: "channel \<notin> set object_prototype_names"
      and no: "\<not> obj_has_own channel (channels s)" for sid channel username
  proof -
    from no have n: "map_of (channels s) channel = None" by (simp add: obj_has_own_map_of)
    with hub_inv_membership [OF inv, of channel sid] np
    have nin: "\<not> js_in channel (socket_channels s sid)" by (simp add: js_in_def)
    from on_join_result [OF ne nin, of username] obtain s' out where
      res: "on_join sid channel username s = Inr (s', out)"
      and ch: "map_of (channels s') =
          (map_of (channels s))(channel \<mapsto> obj_set sid sid (enumerable (js_get (channels s) channel)))"
      by blast
    have "enumerable (js_get (channels s) channel) = []"
      using n by (simp add: enumerable_js_get)
    with ch have "map_of (channels s') channel = Some (obj_set sid sid [])" by simp
    then have "members s' channel = obj_keys (obj_set sid sid ([] :: string jsobj))"
      by (rule members_Some)
    then show ?thesis
      by (simp add: res state_of_def obj_set_def obj_keys_def)
  qed
  have d: "\<not> obj_has_own channel (channels (state_of (part sid channel s)))"
    if "members s channel = [sid]" for sid channel
  proof -
    from that have "sid \<in> set (members s channel)" by simp
    with member_iff [OF inv] have own: "obj_has_own channel (socket_channels s sid)" by simp
    from part_member [OF inv own] obtain roster where
      r: "map_of (channels s) channel = Some roster"
      and p: "part sid channel s =
       Inr (s\<lparr>socket_channels :=
                (socket_channels s)(sid := obj_delete channel (socket_channels s sid)),
              channels :=
                (if obj_delete sid roster = []
                 then obj_delete channel (obj_set channel (obj_delete sid roster) (channels s))
                 else obj_set channel (obj_delete sid roster) (channels s))\<rparr>,
            concat (map (\<lambda>(pid, sock). [(sock, removePeer sid), (sid, removePeer pid)])
                      (obj_delete sid roster)))"
      by blast
    from that members_Some [OF r] have "obj_keys roster = [sid]" by simp
    then have "obj_keys (obj_delete sid roster) = []" by (simp add: obj_keys_obj_delete)
    then have "obj_delete sid roster = []" by simp
    then show ?thesis by (simp add: p state_of_def)
  qed
  from a b c d show ?thesis by blast
qed

theorem channels_never_empty_witness:
  "no_empty_channel hub_AB
   \<and> no_empty_channel (state_of (handle ''A'' (Part ''room1'') hub_AB))
   \<and> members (state_of (on_join ''B'' ''room2'' [] hub_A)) ''room2'' = [''B'']
   \<and> \<not> obj_has_own ''room1'' (channels (state_of (part ''A'' ''room1'' hub_A)))"
proof -
  have c: "obj_has_own ''A'' (sockets hub_AB)"
    by (simp add: obj_has_own_def obj_keys_def hub_AB_eval)
  have t: "\<not> threw (handle ''A'' (Part ''room1'') hub_AB)"
    using reachable_inv [OF reachable_hub_AB] by (simp add: part_no_throw)
  have n: "''room2'' \<noteq> [] \<and> ''room2'' \<notin> set object_prototype_names
           \<and> \<not> obj_has_own ''room2'' (channels hub_A)"
    by (simp add: object_prototype_names_def obj_has_own_def obj_keys_def hub_A_eval)
  note AB = channels_never_empty [OF reachable_hub_AB]
  note A = channels_never_empty [OF reachable_hub_A]
  have 1: "no_empty_channel hub_AB"
    by (rule AB [THEN conjunct1])
  have 2: "no_empty_channel (state_of (handle ''A'' (Part ''room1'') hub_AB))"
    by (rule AB [THEN conjunct2, THEN conjunct1, THEN spec, THEN spec, THEN mp,
          OF conjI [OF c t]])
  have 3: "members (state_of (on_join ''B'' ''room2'' [] hub_A)) ''room2'' = [''B'']"
    by (rule A [THEN conjunct2, THEN conjunct2, THEN conjunct1, THEN spec, THEN spec,
          THEN spec, THEN mp, OF n])
  have 4: "\<not> obj_has_own ''room1'' (channels (state_of (part ''A'' ''room1'' hub_A)))"
    by (rule A [THEN conjunct2, THEN conjunct2, THEN conjunct2, THEN spec, THEN spec,
          THEN mp, OF members_hub_A])
  from 1 2 3 4 show ?thesis by (intro conjI)
qed

text \<open>
  Claim C8. In every state of a run the disconnect handler returns, and its outcome, state
  and emissions, is that of leaving every channel the socket lists, one after the other,
  and then deleting the socket's entries in \<open>sockets\<close> and \<open>usernames\<close>.
\<close>

theorem disconnect_is_leave_all_then_purge:
  assumes "reachable s"
  shows "on_disconnect sid s = disconnect_spec sid s \<and> \<not> threw (on_disconnect sid s)"
proof -
  have inv: "hub_inv s" using assms by (rule reachable_inv)
  have e: "on_disconnect sid s = disconnect_spec sid s" by (rule on_disconnect_eq [OF inv])
  from disconnect_spec_result [OF inv, of sid] have "\<not> threw (disconnect_spec sid s)"
    by (auto simp: threw_def)
  with e show ?thesis by simp
qed

theorem disconnect_is_leave_all_then_purge_witness:
  "on_disconnect ''B'' hub_AB = disconnect_spec ''B'' hub_AB
   \<and> \<not> threw (on_disconnect ''B'' hub_AB)
   \<and> emitted (on_disconnect ''B'' hub_AB) = [(''A'', removePeer ''B''), (''B'', removePeer ''A'')]
   \<and> sockets (state_of (on_disconnect ''B'' hub_AB)) = [(''A'', ''A'')]
   \<and> channels (state_of (on_disconnect ''B'' hub_AB)) = [(''room1'', [(''A'', ''A'')])]"
proof -
  have e: "emitted (on_disconnect ''B'' hub_AB) = [(''A'', removePeer ''B''), (''B'', removePeer ''A'')]
   \<and> sockets (state_of (on_disconnect ''B'' hub_AB)) = [(''A'', ''A'')]
   \<and> channels (state_of (on_disconnect ''B'' hub_AB)) = [(''room1'', [(''A'', ''A'')])]"
    by (simp add: hub_AB_eval hub_eval)
  note d = disconnect_is_leave_all_then_purge [OF reachable_hub_AB, of "''B''"]
  from d [THEN conjunct1] d [THEN conjunct2] e [THEN conjunct1]
    e [THEN conjunct2, THEN conjunct1] e [THEN conjunct2, THEN conjunct2]
  show ?thesis by (intro conjI)
qed

lemma received_map_excluded:
  "received (map (\<lambda>pid. (pid, e)) (filter (\<lambda>pid. pid \<noteq> sid) ks)) sid = []"
  by (induction ks) (auto simp: received_def)

lemma enumerate_map:
  "enumerate n (map f xs) = map (\<lambda>(k, x). (k, f x)) (enumerate n xs)"
  by (induction xs arbitrary: n) simp_all

lemma received_enumerate_other:
  "sid \<notin> set ks \<Longrightarrow> received (map (\<lambda>(j, pid). (pid, e j)) (enumerate n ks)) sid = []"
  by (induction ks arbitrary: n) (auto simp: received_def)

lemma received_enumerate_member:
  "distinct ks \<Longrightarrow> k < length ks \<Longrightarrow>
   received (map (\<lambda>(j, pid). (pid, e j)) (enumerate n ks)) (ks ! k) = [e (n + k)]"
proof (induction ks arbitrary: n k)
  case Nil
  then show ?case by simp
next
  case (Cons p ks)
  show ?case
  proof (cases k)
    case 0
    from Cons.prems have "p \<notin> set ks" by simp
    from received_enumerate_other [OF this, of e "Suc n"] 0 show ?thesis
      by (simp add: received_def)
  next
    case (Suc k')
    with Cons.prems have k': "k' < length ks" and d: "distinct ks" and "ks ! k' \<noteq> p"
      by auto
    with Cons.IH [OF d k', of "Suc n"] Suc show ?thesis
      by (simp add: received_def)
  qed
qed

text \<open>
  Claim C10. A chat message for a registered channel is emitted once on the socket of
  every member, in roster order and with no exception, so a sender that is a member
  receives its own message; the state does not change. A mute status and a speaking status
  are emitted on the socket of every member but the sender, who receives nothing.
\<close>

theorem broadcasts_chat_echo_status_exclude_sender:
  assumes "reachable s" and "obj_has_own channel (channels s)"
  shows "on_chatMessage sid channel message now s =
           Inr (s, map (\<lambda>(k, pid).
                          (pid, chatMessage sid (display_name (usernames s) sid) message (now k)))
                     (enumerate 0 (members s channel)))
       \<and> (\<forall>k < length (members s channel). members s channel ! k = sid \<longrightarrow>
            received (emitted (on_chatMessage sid channel message now s)) sid
            = [chatMessage sid (display_name (usernames s) sid) message (now k)])
       \<and> on_muteStatus sid channel isMuted s =
           Inr (s, map (\<lambda>pid. (pid, peerMuteStatus sid isMuted))
                     (filter (\<lambda>pid. pid \<noteq> sid) (members s channel)))
       \<and> on_speakingStatus sid channel isSpeaking s =
           Inr (s, map (\<lambda>pid. (pid, peerSpeakingStatus sid isSpeaking))
                     (filter (\<lambda>pid. pid \<noteq> sid) (members s channel)))
       \<and> received (emitted (on_muteStatus sid channel isMuted s)) sid = []
       \<and> received (emitted (on_speakingStatus sid channel isSpeaking s)) sid = []"
proof -
  have inv: "hub_inv s" using assms(1) by (rule reachable_inv)
  from assms(2) obtain roster where r: "map_of (channels s) channel = Some roster"
    by (auto simp: obj_has_own_map_of)
  have m: "members s channel = obj_keys roster" by (rule members_Some [OF r])
  have ent: "roster = map (\<lambda>pid. (pid, pid)) (obj_keys roster)"
    by (rule roster_entries [OF inv r])
  have d: "distinct (obj_keys roster)" and ne: "channel \<noteq> []"
    using hub_inv_roster [OF inv r] by simp_all
  have ok: "\<not> no_such_channel s channel"
    using ne r by (simp add: no_such_channel_def)
  have en: "enumerable (js_get (channels s) channel) = roster"
    using r by simp
  let ?name = "display_name (usernames s) sid"
  have "enumerate 0 roster = map (\<lambda>(k, pid). (k, pid, pid)) (enumerate 0 (obj_keys roster))"
    by (subst ent) (rule enumerate_map)
  then have "map (\<lambda>(k, pid, sock). (sock, chatMessage sid ?name message (now k))) (enumerate 0 roster)
      = map (\<lambda>(k, pid). (pid, chatMessage sid ?name message (now k))) (enumerate 0 (obj_keys roster))"
    by (simp add: comp_def case_prod_unfold)
  then have chat: "on_chatMessage sid channel message now s =
           Inr (s, map (\<lambda>(k, pid). (pid, chatMessage sid ?name message (now k)))
                     (enumerate 0 (members s channel)))"
    using ok by (simp add: on_chatMessage_def en m)
  have fl: "filter (\<lambda>(pid, sock). pid \<noteq> sid) roster
          = map (\<lambda>pid. (pid, pid)) (filter (\<lambda>pid. pid \<noteq> sid) (obj_keys roster))"
    by (subst ent) (simp add: filter_map comp_def)
  have mute: "on_muteStatus sid channel isMuted s =
           Inr (s, map (\<lambda>pid. (pid, peerMuteStatus sid isMuted))
                     (filter (\<lambda>pid. pid \<noteq> sid) (members s channel)))"
    unfolding on_muteStatus_def en m fl using ok by (simp add: comp_def)
  have speak: "on_speakingStatus sid channel isSpeaking s =
           Inr (s, map (\<lambda>pid. (pid, peerSpeakingStatus sid isSpeaking))
                     (filter (\<lambda>pid. pid \<noteq> sid) (members s channel)))"
    unfolding on_speakingStatus_def en m fl using ok by (simp add: comp_def)
  have echo: "received (emitted (on_chatMessage sid channel message now s)) sid
            = [chatMessage sid ?name message (now k)]"
    if "k < length (members s channel)" and "members s channel ! k = sid" for k
    using that d
      received_enumerate_member [of "members s channel" k "\<lambda>j. chatMessage sid ?name message (now j)" 0]
    by (simp add: chat emitted_def m)
  have "received (emitted (on_muteStatus sid channel isMuted s)) sid = []"
    and "received (emitted (on_speakingStatus sid channel isSpeaking s)) sid = []"
    by (simp_all add: mute speak emitted_def received_map_excluded)
  with chat mute speak echo show ?thesis by blast
qed

theorem broadcasts_chat_echo_status_exclude_sender_witness:
  "on_chatMessage ''A'' ''room1'' ''hello'' (\<lambda>k. 1700000000000 + k) hub_AB =
     Inr (hub_AB, [(''A'', chatMessage ''A'' ''alice'' ''hello'' 1700000000000),
                   (''B'', chatMessage ''A'' ''alice'' ''hello'' 1700000000001)])
   \<and> received (emitted (on_chatMessage ''A'' ''room1'' ''hello'' (\<lambda>k. 1700000000000 + k) hub_AB))
        ''A''
      = [chatMessage ''A'' ''alice'' ''hello'' 1700000000000]
   \<and> on_muteStatus ''A'' ''room1'' True hub_AB = Inr (hub_AB, [(''B'', peerMuteStatus ''A'' True)])
   \<and> on_speakingStatus ''A'' ''room1'' True hub_AB
      = Inr (hub_AB, [(''B'', peerSpeakingStatus ''A'' True)])"
proof -
  have h: "obj_has_own ''room1'' (channels hub_AB)"
    by (simp add: obj_has_own_def obj_keys_def hub_AB_eval)
  from broadcasts_chat_echo_status_exclude_sender [OF reachable_hub_AB h,
      of "''A''" "''hello''" "\<lambda>k. 1700000000000 + k" True True]
  show ?thesis
    by (simp add: members_hub_AB display_name_def hub_AB_eval received_def emitted_def
        enumerate_eq_zip)
qed

lemma relay_forwarded:
  assumes "map_of (sockets s) peer_id = Some sock"
  shows "on_relayICECandidate sid peer_id ice s = Inr (s, [(sock, iceCandidate sid ice)])"
    and "on_relaySessionDescription sid peer_id sd s = Inr (s, [(sock, sessionDescription sid sd)])"
  using assms
  by (simp_all add: on_relayICECandidate_def on_relaySessionDescription_def js_in_def
      obj_has_own_map_of)

lemma relay_dropped:
  assumes "\<not> obj_has_own peer_id (sockets s)" and "peer_id \<notin> set object_prototype_names"
  shows "on_relayICECandidate sid peer_id ice s = Inr (s, [])"
    and "on_relaySessionDescription sid peer_id sd s = Inr (s, [])"
  using assms
  by (simp_all add: on_relayICECandidate_def on_relaySessionDescription_def js_in_def)

text \<open>
  Claim C4 at a concrete target. With one socket \<open>A\<close> connected, \<open>toString\<close> is not a
  tracked connection, yet \<open>"toString" in sockets\<close> holds through \<open>Object.prototype\<close>, and
  both relays call \<open>emit\<close> on the inherited function and throw.
\<close>

theorem relay_to_inherited_name_throws:
  "\<not> obj_has_own ''toString'' (sockets (on_connection ''A'' hub_init))
   \<and> on_relayICECandidate ''A'' ''toString'' (0, ''candidate:1 1 udp 1 192.0.2.1 9 typ host'')
        (on_connection ''A'' hub_init) = Inl TypeError
   \<and> on_relaySessionDescription ''A'' ''toString'' (''offer'', ''v=0'')
        (on_connection ''A'' hub_init) = Inl TypeError"
  by (simp add: hub_eval)

section \<open>The claim about the client\<close>

lemma addPeerToUI_peers [simp]: "peers (addPeerToUI peerId username c) = peers c"
  by (simp add: addPeerToUI_def Let_def)

lemma handleAddPeer_known:
  "js_get (peers c) (cfg_peer_id config) \<noteq> Undefined \<Longrightarrow> handleAddPeer config eng c = c"
  by (simp add: handleAddPeer_def)

lemma handleAddPeer_stores:
  "js_get (peers (handleAddPeer config eng c)) (cfg_peer_id config) \<noteq> Undefined"
  by (cases "js_get (peers c) (cfg_peer_id config) = Undefined")
     (auto simp: handleAddPeer_def Let_def js_get_def split: option.splits)

text \<open>
  Claim C9. An \<open>addPeer\<close> event for an identifier the client holds a connection for
  leaves the whole client state as it was: no connection object is created, the stored
  one keeps its tracks and descriptions, nothing is shown or relayed. Handling the same
  event a second time, whatever the engine would answer, gives the state the first
  handling gave.
\<close>

theorem handleAddPeer_duplicate_ignored:
  "(obj_has_own (cfg_peer_id config) (peers c) \<longrightarrow> handleAddPeer config eng c = c)
   \<and> handleAddPeer config eng' (handleAddPeer config eng c) = handleAddPeer config eng c"
proof
  show "obj_has_own (cfg_peer_id config) (peers c) \<longrightarrow> handleAddPeer config eng c = c"
    by (auto simp: obj_has_own_map_of js_get_def intro!: handleAddPeer_known)
  show "handleAddPeer config eng' (handleAddPeer config eng c) = handleAddPeer config eng c"
    by (rule handleAddPeer_known) (rule handleAddPeer_stores)
qed

lemmas client_eval = handleAddPeer_def addPeerToUI_def client_init_def addPeer_A_def
  engine_ok_def engine_rejecting_def

lemma client_after_addPeer_A:
  "peers (handleAddPeer addPeer_A engine_ok client_init) =
     [(''A'', \<lparr>pc_object = 0, pc_tracks = [''audio''],
              pc_localDescription =
                Some (''offer'', ''m=audio 9 RTP/AVP 0'' @ CRLF @ ''b=TIAS:16000'')\<rparr>)]"
  "created (handleAddPeer addPeer_A engine_ok client_init) = 1"
  "relayed (handleAddPeer addPeer_A engine_ok client_init) =
     [(''A'', ''offer'', ''m=audio 9 RTP/AVP 0'' @ CRLF @ ''b=TIAS:16000'')]"
  "peer_items (handleAddPeer addPeer_A engine_ok client_init) = [(''A'', ''alice'')]"
  by (simp_all add: client_eval hub_eval codec_eval)

theorem handleAddPeer_duplicate_ignored_witness:
  "obj_has_own ''A'' (peers (handleAddPeer addPeer_A engine_ok client_init))
   \<and> handleAddPeer addPeer_A engine_rejecting (handleAddPeer addPeer_A engine_ok client_init)
      = handleAddPeer addPeer_A engine_ok client_init
   \<and> handleAddPeer addPeer_A engine_ok (handleAddPeer addPeer_A engine_ok client_init)
      = handleAddPeer addPeer_A engine_ok client_init"
proof -
  have pid: "cfg_peer_id addPeer_A = ''A''"
    by (simp add: addPeer_A_def)
  have h: "obj_has_own (cfg_peer_id addPeer_A) (peers (handleAddPeer addPeer_A engine_ok client_init))"
    by (simp add: pid client_after_addPeer_A obj_has_own_def obj_keys_def)
  note T = handleAddPeer_duplicate_ignored
  have 1: "handleAddPeer addPeer_A engine_rejecting (handleAddPeer addPeer_A engine_ok client_init)
      = handleAddPeer addPeer_A engine_ok client_init"
    by (rule T [THEN conjunct1, THEN mp, OF h])
  have 2: "handleAddPeer addPeer_A engine_ok (handleAddPeer addPeer_A engine_ok client_init)
      = handleAddPeer addPeer_A engine_ok client_init"
    by (rule T [THEN conjunct2])
  from h have 0: "obj_has_own ''A'' (peers (handleAddPeer addPeer_A engine_ok client_init))"
    by (simp add: pid)
  from 0 1 2 show ?thesis by (intro conjI)
qed

end
